theory Spec2Isabelle
  imports Main "HOL-Library.Sublist"
begin

section \<open>Python primitives used by the ingestion scripts\<close>

text \<open>
  The six scripts under \<^verbatim>\<open>src/*/implementation.py\<close> each define
  \<^verbatim>\<open>ingest_document\<close>. They share a handful of Python built-ins, modelled here once:
  \<^verbatim>\<open>str.split(sep)\<close>, \<^verbatim>\<open>sep.join(xs)\<close>, list slices, \<^verbatim>\<open>str(int)\<close>
  and \<^verbatim>\<open>int(a / b)\<close>. Python integers are unbounded, hence \<^typ>\<open>int\<close>;
  strings are \<^typ>\<open>string\<close> (ASCII text, one \<^typ>\<open>char\<close> per character).
\<close>

datatype py_error = ValueError | KeyError | TypeError | AttributeError

text \<open>\<^verbatim>\<open>sep.join(ws)\<close>.\<close>

fun py_join :: "string \<Rightarrow> string list \<Rightarrow> string" where
  "py_join sep [] = []"
| "py_join sep [w] = w"
| "py_join sep (w # v # ws) = w @ sep @ py_join sep (v # ws)"

text \<open>
  \<^verbatim>\<open>s.split(sep)\<close> for a non-empty literal separator: a left-to-right scan
  for non-overlapping occurrences. (With an empty separator Python raises
  \<^verbatim>\<open>ValueError\<close>; every caller below checks that first.)
\<close>

function split_from :: "string \<Rightarrow> string \<Rightarrow> string \<Rightarrow> string list" where
  "split_from sep acc [] = [acc]"
| "split_from sep acc (c # cs) =
     (if sep \<noteq> [] \<and> take (length sep) (c # cs) = sep
      then acc # split_from sep [] (drop (length sep) (c # cs))
      else split_from sep (acc @ [c]) cs)"
  by pat_completeness auto
termination
  by (relation "measure (\<lambda>(sep, acc, s). length s)") auto

definition py_split :: "string \<Rightarrow> string \<Rightarrow> string list" where
  "py_split sep s = split_from sep [] s"

text \<open>
  A slice \<^verbatim>\<open>xs[i:j]\<close> with Python's treatment of negative and out-of-range
  bounds: a negative bound counts from the end, then both are clamped to
  \<open>0..len(xs)\<close>.
\<close>

definition slice_bound :: "nat \<Rightarrow> int \<Rightarrow> nat" where
  "slice_bound n i = (if i < 0 then nat (max 0 (i + int n)) else min (nat i) n)"

definition py_slice :: "'a list \<Rightarrow> int \<Rightarrow> int \<Rightarrow> 'a list" where
  "py_slice xs i j =
     (let a = slice_bound (length xs) i; b = slice_bound (length xs) j
      in take (b - a) (drop a xs))"

text \<open>
  \<^verbatim>\<open>int(a / b)\<close>: true division, then truncation towards zero. (The float
  quotient is exact enough for this whenever \<open>|a| < 2^53\<close>.)
\<close>

definition py_trunc_div :: "int \<Rightarrow> int \<Rightarrow> int" where
  "py_trunc_div a b =
     (if (a < 0) = (b < 0) then \<bar>a\<bar> div \<bar>b\<bar> else - (\<bar>a\<bar> div \<bar>b\<bar>))"

section \<open>Documents as Python values\<close>

text \<open>
  A document is a nested JSON-like value. A \<^verbatim>\<open>dict\<close> is an association list
  in insertion order (keys are distinct in a real \<^verbatim>\<open>dict\<close>; \<open>map_of\<close> reads
  the first binding). Floats are left out of the model.
\<close>

datatype pyval =
    PNone
  | PBool bool
  | PInt int
  | PStr string
  | PList "pyval list"
  | PDict "(string \<times> pyval) list"

text \<open>Truthiness, as tested by \<^verbatim>\<open>if not current\<close> and \<^verbatim>\<open>if item\<close>.\<close>

fun truthy :: "pyval \<Rightarrow> bool" where
  "truthy PNone = False"
| "truthy (PBool b) = b"
| "truthy (PInt i) = (i \<noteq> 0)"
| "truthy (PStr s) = (s \<noteq> [])"
| "truthy (PList xs) = (xs \<noteq> [])"
| "truthy (PDict kvs) = (kvs \<noteq> [])"

text \<open>\<^verbatim>\<open>str(n)\<close> for integers, in decimal.\<close>

function str_nat :: "nat \<Rightarrow> string" where
  "str_nat n =
     (if n < 10 then [''0123456789'' ! n]
      else str_nat (n div 10) @ [''0123456789'' ! (n mod 10)])"
  by pat_completeness auto
termination
  by (relation "measure (\<lambda>n. n)") auto

declare str_nat.simps [simp del]

definition str_int :: "int \<Rightarrow> string" where
  "str_int i = (if i < 0 then CHR ''-'' # str_nat (nat (- i)) else str_nat (nat i))"

text \<open>
  \<^verbatim>\<open>repr\<close> of a string: single quotes unless the text holds a single quote
  and no double quote; backslash, the chosen quote, tab, newline, carriage
  return and the other control characters are escaped.
\<close>

definition repr_char :: "char \<Rightarrow> char \<Rightarrow> string" where
  "repr_char q c =
     (if c = CHR 0x5C then [CHR 0x5C, CHR 0x5C]
      else if c = q then [CHR 0x5C, q]
      else if c = CHR 0x09 then [CHR 0x5C, CHR ''t'']
      else if c = CHR 0x0A then [CHR 0x5C, CHR ''n'']
      else if c = CHR 0x0D then [CHR 0x5C, CHR ''r'']
      else if (of_char c :: nat) < 32 \<or> (of_char c :: nat) = 127
      then [CHR 0x5C, CHR ''x'', ''0123456789abcdef'' ! (of_char c div 16),
            ''0123456789abcdef'' ! (of_char c mod 16)]
      else [c])"

definition repr_str :: "string \<Rightarrow> string" where
  "repr_str s =
     (let q = (if CHR 0x27 \<in> set s \<and> CHR 0x22 \<notin> set s then CHR 0x22 else CHR 0x27)
      in q # concat (map (repr_char q) s) @ [q])"

fun py_repr :: "pyval \<Rightarrow> string" where
  "py_repr PNone = ''None''"
| "py_repr (PBool b) = (if b then ''True'' else ''False'')"
| "py_repr (PInt i) = str_int i"
| "py_repr (PStr s) = repr_str s"
| "py_repr (PList xs) = ''['' @ py_join '', '' (map py_repr xs) @ '']''"
| "py_repr (PDict kvs) =
     ''{'' @ py_join '', '' (map (\<lambda>kv. repr_str (fst kv) @ '': '' @ py_repr (snd kv)) kvs) @ ''}''"

text \<open>\<^verbatim>\<open>str(v)\<close>, also what an f-string writes for \<^verbatim>\<open>{v}\<close>.\<close>

fun py_str :: "pyval \<Rightarrow> string" where
  "py_str (PStr s) = s"
| "py_str v = py_repr v"

text \<open>\<^verbatim>\<open>d.get(k, default)\<close> on the association list of a \<^verbatim>\<open>dict\<close>.\<close>

definition dict_get :: "(string \<times> pyval) list \<Rightarrow> string \<Rightarrow> pyval \<Rightarrow> pyval" where
  "dict_get kvs k d = (case map_of kvs k of Some v \<Rightarrow> v | None \<Rightarrow> d)"

text \<open>\<^verbatim>\<open>isinstance(v, list)\<close>, and the elements of a list value.\<close>

fun is_list :: "pyval \<Rightarrow> bool" where
  "is_list (PList xs) = True"
| "is_list v = False"

fun list_items :: "pyval \<Rightarrow> pyval list" where
  "list_items (PList xs) = xs"
| "list_items v = []"

section \<open>mongo: \<^verbatim>\<open>ingest_document\<close>\<close>

text \<open>
  The packing loop of \<^verbatim>\<open>chunk_text\<close>, with its three variables
  \<^verbatim>\<open>chunks\<close>, \<^verbatim>\<open>current_chunk\<close>, \<^verbatim>\<open>current_length\<close>, and the flush after it.
\<close>

primrec mg_pack ::
  "string \<Rightarrow> int \<Rightarrow> string list \<Rightarrow> string list \<Rightarrow> string list \<Rightarrow> int \<Rightarrow> string list"
where
  "mg_pack sep chunk_size [] chunks current_chunk current_length =
     (if current_chunk \<noteq> [] then chunks @ [py_join sep current_chunk] else chunks)"
| "mg_pack sep chunk_size (word # ws) chunks current_chunk current_length =
     (if current_length + int (length word) + 1 \<le> chunk_size
      then mg_pack sep chunk_size ws chunks (current_chunk @ [word])
             (current_length + int (length word) + 1)
      else mg_pack sep chunk_size ws
             (if current_chunk \<noteq> [] then chunks @ [py_join sep current_chunk] else chunks)
             [word] (int (length word) + 1))"

text \<open>
  The second pass: every chunk but the first is prefixed with
  \<^verbatim>\<open>prev_chunk.split(separator)[-chunk_overlap:]\<close>, the last \<^verbatim>\<open>chunk_overlap\<close>
  \<^emph>\<open>words\<close> of the chunk before it in the packed list.
\<close>

definition mg_overlap_chunk :: "string \<Rightarrow> int \<Rightarrow> string \<Rightarrow> string \<Rightarrow> string" where
  "mg_overlap_chunk sep chunk_overlap prev_chunk chunk =
     py_join sep
       (py_slice (py_split sep prev_chunk) (- chunk_overlap)
          (int (length (py_split sep prev_chunk)))
        @ py_split sep chunk)"

definition mg_overlapped :: "string \<Rightarrow> int \<Rightarrow> string list \<Rightarrow> string list" where
  "mg_overlapped sep chunk_overlap chunks =
     (case chunks of
        [] \<Rightarrow> []
      | c # cs \<Rightarrow>
          c # map (\<lambda>pc. mg_overlap_chunk sep chunk_overlap (fst pc) (snd pc)) (zip chunks cs))"

definition chunk_text :: "string \<Rightarrow> int \<Rightarrow> int \<Rightarrow> string \<Rightarrow> py_error + string list" where
  "chunk_text separator chunk_size chunk_overlap text =
     (if separator = [] then Inl ValueError
      else
        (let chunks = mg_pack separator chunk_size (py_split separator text) [] [] 0
         in if chunk_overlap > 0 \<and> length chunks > 1
            then Inr (mg_overlapped separator chunk_overlap chunks)
            else Inr chunks))"

text \<open>
  \<^verbatim>\<open>extract_field_content\<close>: the loop over \<^verbatim>\<open>field_parts\<close> with the running
  value \<^verbatim>\<open>current\<close>. A literal part met on a value that is neither a
  \<^verbatim>\<open>dict\<close> nor a \<^verbatim>\<open>list\<close> leaves \<^verbatim>\<open>current\<close> as it is.
\<close>

fun extract_field_content :: "pyval \<Rightarrow> string list \<Rightarrow> string" where
  "extract_field_content current [] = (if truthy current then py_str current else [])"
| "extract_field_content current (part # parts) =
     (if \<not> truthy current then []
      else if part = ''*'' then
        (case current of
           PList items \<Rightarrow>
             extract_field_content
               (PList (concat (map (\<lambda>item. case item of PDict kvs \<Rightarrow> map snd kvs | _ \<Rightarrow> [item])
                                 items)))
               parts
         | _ \<Rightarrow> extract_field_content current parts)
      else
        (case current of
           PDict kvs \<Rightarrow> extract_field_content (dict_get kvs part (PStr [])) parts
         | PList items \<Rightarrow>
             extract_field_content
               (PStr (py_join '' ''
                  (map (\<lambda>item. case item of
                                  PDict kvs \<Rightarrow> py_str (dict_get kvs part (PStr []))
                                | _ \<Rightarrow> py_str item)
                     (filter truthy items))))
               parts
         | _ \<Rightarrow> extract_field_content current parts))"

text \<open>
  One \<^verbatim>\<open>UpdateOne\<close> of \<^verbatim>\<open>bulk_operations\<close>: the filter is
  \<open>(doc_id, chunk_id)\<close>, the rest is the \<^verbatim>\<open>$set\<close> document.
\<close>

record 'e mongo_op =
  mg_doc_id :: pyval
  mg_chunk_id :: string
  mg_field :: string
  mg_chunk_index :: int
  mg_text :: string
  mg_embedding :: "'e option"
  mg_total_chunks :: nat
  mg_chunk_size :: int
  mg_chunk_overlap :: int

definition mg_field_ops ::
  "(string \<Rightarrow> 'e) option \<Rightarrow> pyval \<Rightarrow> string \<Rightarrow> int \<Rightarrow> int \<Rightarrow> string list \<Rightarrow> 'e mongo_op list"
where
  "mg_field_ops embedding_model doc_id field chunk_size chunk_overlap chunks =
     map (\<lambda>ic.
            \<lparr> mg_doc_id = doc_id,
              mg_chunk_id = field @ ''_chunk_'' @ str_int (int (fst ic) + 1),
              mg_field = field,
              mg_chunk_index = int (fst ic) + 1,
              mg_text = snd ic,
              mg_embedding = (case embedding_model of Some embed_text \<Rightarrow> Some (embed_text (snd ic))
                              | None \<Rightarrow> None),
              mg_total_chunks = length chunks,
              mg_chunk_size = chunk_size,
              mg_chunk_overlap = chunk_overlap \<rparr>)
         (enumerate 0 chunks)"

text \<open>The loop over \<^verbatim>\<open>searchable_fields\<close>, extending \<^verbatim>\<open>bulk_operations\<close>.\<close>

primrec mg_fields_loop ::
  "(string \<Rightarrow> 'e) option \<Rightarrow> pyval \<Rightarrow> pyval \<Rightarrow> int \<Rightarrow> int \<Rightarrow> string \<Rightarrow> string list \<Rightarrow>
   'e mongo_op list \<Rightarrow> py_error + 'e mongo_op list"
where
  "mg_fields_loop embedding_model document doc_id chunk_size chunk_overlap separator []
     bulk_operations = Inr bulk_operations"
| "mg_fields_loop embedding_model document doc_id chunk_size chunk_overlap separator (field # rest)
     bulk_operations =
     (let content = extract_field_content document (py_split ''.'' field)
      in if content = []
         then mg_fields_loop embedding_model document doc_id chunk_size chunk_overlap separator
                rest bulk_operations
         else
           (case chunk_text separator chunk_size chunk_overlap content of
              Inl e \<Rightarrow> Inl e
            | Inr chunks \<Rightarrow>
                mg_fields_loop embedding_model document doc_id chunk_size chunk_overlap separator
                  rest
                  (bulk_operations
                   @ mg_field_ops embedding_model doc_id field chunk_size chunk_overlap chunks)))"

text \<open>
  \<^verbatim>\<open>ingest_document\<close> of the mongo script. The result is the list handed to
  \<^verbatim>\<open>collection.bulk_write\<close> (called when it is not empty), or the exception.
\<close>

definition mongo_ingest_document ::
  "pyval \<Rightarrow> string list \<Rightarrow> int \<Rightarrow> int \<Rightarrow> string \<Rightarrow> (string \<Rightarrow> 'e) option \<Rightarrow>
   py_error + 'e mongo_op list"
where
  "mongo_ingest_document document searchable_fields chunk_size chunk_overlap separator
     embedding_model =
     (case document of
        PDict kvs \<Rightarrow>
          mg_fields_loop embedding_model document (dict_get kvs ''id'' (PStr (py_str document)))
            chunk_size chunk_overlap separator searchable_fields []
      | _ \<Rightarrow> Inl AttributeError)"

section \<open>chroma: \<^verbatim>\<open>ingest_document\<close>\<close>

text \<open>
  \<^verbatim>\<open>extract_field_value(obj, path, current_path)\<close>: the list of
  \<open>(field_path, text)\<close> pairs. An exhausted path yields nothing, so a
  wildcard in last position yields nothing either.
\<close>

fun chroma_extract_field_value ::
  "string \<Rightarrow> pyval \<Rightarrow> string list \<Rightarrow> string \<Rightarrow> (string \<times> string) list"
where
  "chroma_extract_field_value separator obj [] current_path = []"
| "chroma_extract_field_value separator obj (current # remaining) current_path =
     (if current = ''*'' \<and> is_list obj then
        concat (map (\<lambda>ii. chroma_extract_field_value separator (snd ii) remaining
                            (current_path @ ''['' @ str_nat (fst ii) @ '']''))
                  (enumerate 0 (list_items obj)))
      else
        (case obj of
           PDict kvs \<Rightarrow>
             (case map_of kvs current of
                None \<Rightarrow> []
              | Some v \<Rightarrow>
                  (if remaining = [] then
                     (case v of
                        PStr s \<Rightarrow>
                          [(if current_path \<noteq> [] then current_path @ ''.'' @ current else current, s)]
                      | PList vs \<Rightarrow>
                          [(if current_path \<noteq> [] then current_path @ ''.'' @ current else current,
                            py_join separator (map py_str vs))]
                      | _ \<Rightarrow> [])
                   else chroma_extract_field_value separator v remaining
                          (if current_path \<noteq> [] then current_path @ ''.'' @ current else current)))
         | _ \<Rightarrow> []))"

record chroma_chunk =
  ch_id :: string
  ch_text :: string
  ch_document_id :: pyval
  ch_field :: string
  ch_chunk_index :: nat

definition create_chunk :: "pyval \<Rightarrow> string \<Rightarrow> string \<Rightarrow> nat \<Rightarrow> chroma_chunk" where
  "create_chunk document_id text field_path chunk_index =
     \<lparr> ch_id = py_str document_id @ ''_'' @ field_path @ ''_chunk_'' @ str_nat chunk_index,
       ch_text = text,
       ch_document_id = document_id,
       ch_field = field_path,
       ch_chunk_index = chunk_index \<rparr>"

text \<open>
  The overlap loop \<^verbatim>\<open>for w in reversed(current_chunk)\<close>: words are taken
  from the end while each word plus one separator still fits in
  \<^verbatim>\<open>chunk_overlap\<close> characters. It returns \<^verbatim>\<open>(overlap_words, overlap_length)\<close>.
\<close>

primrec chroma_overlap ::
  "string \<Rightarrow> int \<Rightarrow> string list \<Rightarrow> string list \<Rightarrow> int \<Rightarrow> string list \<times> int"
where
  "chroma_overlap separator chunk_overlap [] overlap_words overlap_length =
     (overlap_words, overlap_length)"
| "chroma_overlap separator chunk_overlap (w # ws) overlap_words overlap_length =
     (if overlap_length + (int (length w) + int (length separator)) > chunk_overlap
      then (overlap_words, overlap_length)
      else chroma_overlap separator chunk_overlap ws (w # overlap_words)
             (overlap_length + (int (length w) + int (length separator))))"

text \<open>
  The loop \<^verbatim>\<open>for word in words\<close> for one \<open>(field_path, text)\<close> pair and the
  flush after it; the result is what this pair appends to \<^verbatim>\<open>chunks_data\<close>.
\<close>

primrec chroma_words_loop ::
  "pyval \<Rightarrow> string \<Rightarrow> string \<Rightarrow> int \<Rightarrow> int \<Rightarrow> string list \<Rightarrow> string list \<Rightarrow> int \<Rightarrow> nat \<Rightarrow>
   chroma_chunk list"
where
  "chroma_words_loop document_id field_path separator chunk_size chunk_overlap []
     current_chunk current_length chunk_index =
     (if current_chunk \<noteq> []
      then [create_chunk document_id (py_join separator current_chunk) field_path chunk_index]
      else [])"
| "chroma_words_loop document_id field_path separator chunk_size chunk_overlap (word # ws)
     current_chunk current_length chunk_index =
     (let word_length =
            int (length word) + (if current_chunk \<noteq> [] then int (length separator) else 0)
      in if current_length + word_length > chunk_size \<and> current_chunk \<noteq> [] then
           create_chunk document_id (py_join separator current_chunk) field_path chunk_index
           # (let ov = chroma_overlap separator chunk_overlap (rev current_chunk) [] 0
              in chroma_words_loop document_id field_path separator chunk_size chunk_overlap ws
                   (fst ov @ [word]) (snd ov + word_length) (Suc chunk_index))
         else chroma_words_loop document_id field_path separator chunk_size chunk_overlap ws
                (current_chunk @ [word]) (current_length + word_length) chunk_index)"

text \<open>The loop over the extracted pairs of one pattern, then over the patterns.\<close>

primrec chroma_pairs_loop ::
  "pyval \<Rightarrow> string \<Rightarrow> int \<Rightarrow> int \<Rightarrow> (string \<times> string) list \<Rightarrow> py_error + chroma_chunk list"
where
  "chroma_pairs_loop document_id separator chunk_size chunk_overlap [] = Inr []"
| "chroma_pairs_loop document_id separator chunk_size chunk_overlap (ft # fts) =
     (if separator = [] then Inl ValueError
      else
        (case chroma_pairs_loop document_id separator chunk_size chunk_overlap fts of
           Inl e \<Rightarrow> Inl e
         | Inr rest \<Rightarrow>
             Inr (chroma_words_loop document_id (fst ft) separator chunk_size chunk_overlap
                    (py_split separator (snd ft)) [] 0 0
                  @ rest)))"

definition chroma_ingest_document ::
  "pyval \<Rightarrow> string list \<Rightarrow> int \<Rightarrow> int \<Rightarrow> string \<Rightarrow> py_error + chroma_chunk list"
where
  "chroma_ingest_document document searchable_fields chunk_size chunk_overlap separator =
     (case document of
        PDict kvs \<Rightarrow>
          (case map_of kvs ''id'' of
             None \<Rightarrow> Inl KeyError
           | Some document_id \<Rightarrow>
               chroma_pairs_loop document_id separator chunk_size chunk_overlap
                 (concat (map (\<lambda>field_pattern.
                                 chroma_extract_field_value separator document
                                   (py_split ''.'' field_pattern) [])
                            searchable_fields)))
      | _ \<Rightarrow> Inl TypeError)"

section \<open>Splitting and joining a dotted path\<close>

text \<open>
  Three scripts walk a path by re-joining its remaining parts and calling
  themselves on the joined string. The recursion ends because the joined
  string gets shorter; the facts below say so.
\<close>

lemma split_from_not_Nil: "split_from sep acc s \<noteq> []"
  by (induction sep acc s rule: split_from.induct) auto

lemma py_join_Cons: "ws \<noteq> [] \<Longrightarrow> py_join sep (w # ws) = w @ sep @ py_join sep ws"
  by (cases ws) auto

lemma join_split_from: "py_join sep (split_from sep acc s) = acc @ s"
proof (induction sep acc s rule: split_from.induct)
  case (1 sep acc)
  show ?case by simp
next
  case (2 sep acc c cs)
  show ?case
  proof (cases "sep \<noteq> [] \<and> take (length sep) (c # cs) = sep")
    case True
    then have "py_join sep (split_from sep acc (c # cs)) =
        acc @ sep @ py_join sep (split_from sep [] (drop (length sep) (c # cs)))"
      by (simp add: py_join_Cons split_from_not_Nil del: drop_Suc_Cons take_Suc_Cons)
    also have "\<dots> = acc @ take (length sep) (c # cs) @ drop (length sep) (c # cs)"
      using True 2 by (simp del: drop_Suc_Cons take_Suc_Cons)
    finally show ?thesis by (simp del: drop_Suc_Cons take_Suc_Cons)
  next
    case False
    then show ?thesis using 2 by auto
  qed
qed

lemma join_split: "py_join sep (py_split sep s) = s"
  by (simp add: py_split_def join_split_from)

lemma length_join_Cons: "length w + length (py_join sep ws) \<le> length (py_join sep (w # ws))"
  by (cases ws) auto

text \<open>\<^verbatim>\<open>parts[parts.index(x)+1:]\<close>, for an \<open>x\<close> that occurs in \<open>parts\<close>.\<close>

definition after_first :: "string \<Rightarrow> string list \<Rightarrow> string list" where
  "after_first x parts = tl (dropWhile (\<lambda>p. p \<noteq> x) parts)"

lemma length_join_after:
  "x \<in> set ws \<Longrightarrow> x \<noteq> [] \<Longrightarrow>
   length (py_join sep (after_first x ws)) < length (py_join sep ws)"
  unfolding after_first_def
proof (induction ws)
  case Nil
  then show ?case by simp
next
  case (Cons w ws)
  show ?case
  proof (cases "w = x")
    case True
    moreover obtain c cs where "x = c # cs"
      using Cons.prems(2) by (auto simp: neq_Nil_conv)
    ultimately show ?thesis
      using length_join_Cons [of w sep ws] by simp
  next
    case False
    then have "length (py_join sep (tl (dropWhile (\<lambda>p. p \<noteq> x) ws))) < length (py_join sep ws)"
      using Cons by simp
    also have "\<dots> \<le> length (py_join sep (w # ws))"
      using length_join_Cons [of w sep ws] by simp
    finally show ?thesis using False by simp
  qed
qed

section \<open>pgvector: \<^verbatim>\<open>ingest_document\<close>\<close>

subsection \<open>Field access\<close>

text \<open>
  \<^verbatim>\<open>get_field_value\<close>: \<open>pg_walk parts current rest\<close> is the loop
  \<^verbatim>\<open>for part in parts\<close> with \<open>rest\<close> still to visit. At a wildcard over a
  list the function calls itself on every item with
  \<^verbatim>\<open>".".join(parts[parts.index("*")+1:])\<close>, split again. (The wildcard is an
  element of \<open>parts\<close> there; were it not, \<^verbatim>\<open>index\<close> would raise.)
\<close>

function pg_walk :: "string list \<Rightarrow> pyval \<Rightarrow> string list \<Rightarrow> pyval" where
  "pg_walk parts current [] = current"
| "pg_walk parts current (part # rest) =
     (if part = ''*'' then
        (if is_list current \<and> ''*'' \<in> set parts
         then PList (map (\<lambda>item.
                       pg_walk (py_split ''.'' (py_join ''.'' (after_first ''*'' parts))) item
                         (py_split ''.'' (py_join ''.'' (after_first ''*'' parts))))
                     (list_items current))
         else PNone)
      else
        (case current of
           PDict kvs \<Rightarrow>
             (case map_of kvs part of Some v \<Rightarrow> pg_walk parts v rest | None \<Rightarrow> PNone)
         | _ \<Rightarrow> PNone))"
  by pat_completeness auto
termination
  by (relation "inv_image (less_than <*lex*> less_than)
        (\<lambda>(parts, current, rest). (length (py_join ''.'' parts), length rest))")
     (auto simp: join_split length_join_after)

definition get_field_value :: "pyval \<Rightarrow> string \<Rightarrow> pyval" where
  "get_field_value doc field_path =
     pg_walk (py_split ''.'' field_path) doc (py_split ''.'' field_path)"

text \<open>\<^verbatim>\<open>flatten_list\<close>: nested lists are flattened, \<^verbatim>\<open>None\<close> is dropped, the rest goes through \<^verbatim>\<open>str\<close>.\<close>

fun pg_flatten_item :: "pyval \<Rightarrow> string list" where
  "pg_flatten_item (PList xs) = concat (map pg_flatten_item xs)"
| "pg_flatten_item PNone = []"
| "pg_flatten_item v = [py_str v]"

definition flatten_list :: "pyval list \<Rightarrow> string list" where
  "flatten_list lst = concat (map pg_flatten_item lst)"

subsection \<open>\<^verbatim>\<open>create_chunks\<close>\<close>

text \<open>
  The inner \<^verbatim>\<open>while end < len(words) and current_len + len(words[end]) + (1 if
  current_len > 0 else 0) <= chunk_size\<close> loop; only \<^verbatim>\<open>end\<close> is read
  afterwards.
\<close>

function pg_scan :: "string list \<Rightarrow> int \<Rightarrow> nat \<Rightarrow> int \<Rightarrow> nat" where
  "pg_scan words chunk_size end current_len =
     (if end < length words \<and>
         current_len + int (length (words ! end)) + (if current_len > 0 then 1 else 0)
           \<le> chunk_size
      then pg_scan words chunk_size (Suc end)
             (current_len + int (length (words ! end)) + (if current_len > 0 then 1 else 0))
      else end)"
  by pat_completeness auto
termination
  by (relation "measure (\<lambda>(words, chunk_size, end, current_len). length words - end)") auto

declare pg_scan.simps [simp del]

text \<open>
  The outer \<^verbatim>\<open>while start < len(words)\<close> loop. Nothing in the source bounds
  its number of iterations, so the model counts them: \<open>None\<close> means the fuel
  ran out before the loop exited. \<^verbatim>\<open>start\<close> is never negative (it starts at
  0 and is only replaced by \<^verbatim>\<open>max(start, ...)\<close>), hence a \<^typ>\<open>nat\<close>.
\<close>

fun pg_chunks_loop ::
  "nat \<Rightarrow> string list \<Rightarrow> int \<Rightarrow> int \<Rightarrow> string \<Rightarrow> nat \<Rightarrow> string list \<Rightarrow> string list option"
where
  "pg_chunks_loop 0 words chunk_size overlap sep start chunks = None"
| "pg_chunks_loop (Suc fuel) words chunk_size overlap sep start chunks =
     (if start < length words then
        (if int (length (py_join sep (drop start words))) \<le> chunk_size
         then Some (chunks @ [py_join sep (drop start words)])
         else
           (let end = pg_scan words chunk_size start 0;
                last_len = sum_list (map (int \<circ> length) (py_slice words (int end - 1) (int end)));
                back = max 1 (py_trunc_div overlap (int (length sep) + last_len))
            in pg_chunks_loop fuel words chunk_size overlap sep
                 (nat (max (int start) (int end - back)))
                 (chunks @ [py_join sep (py_slice words (int start) (int end))])))
      else Some chunks)"

definition pg_create_chunks ::
  "nat \<Rightarrow> string \<Rightarrow> int \<Rightarrow> int \<Rightarrow> string \<Rightarrow> (py_error + string list) option"
where
  "pg_create_chunks fuel text chunk_size overlap sep =
     (if sep = [] then Some (Inl ValueError)
      else map_option Inr (pg_chunks_loop fuel (py_split sep text) chunk_size overlap sep 0 []))"

subsection \<open>The ingestion loop\<close>

text \<open>
  What the script takes from the interpreter and its library:
  \<^verbatim>\<open>json.dumps(document, sort_keys=True)\<close> and the built-in \<^verbatim>\<open>hash\<close> of a
  string. The latter is salted per interpreter process (\<^verbatim>\<open>PYTHONHASHSEED\<close>), so
  it is a parameter of a run, not a function of the string alone.
\<close>

record interp =
  json_dumps :: "pyval \<Rightarrow> string"
  str_hash :: "string \<Rightarrow> int"

text \<open>One executed \<^verbatim>\<open>INSERT ... ON CONFLICT (doc_id, field_name, chunk_index) DO UPDATE\<close>.\<close>

record 'e pg_row =
  pg_doc_id :: pyval
  pg_field_name :: string
  pg_chunk_index :: nat
  pg_chunk_text :: string
  pg_embedding :: 'e
  pg_metadata :: pyval

definition pg_rows ::
  "(string \<Rightarrow> 'e) \<Rightarrow> pyval \<Rightarrow> pyval \<Rightarrow> string \<Rightarrow> string list \<Rightarrow> 'e pg_row list"
where
  "pg_rows embed_text doc_id document field chunks =
     map (\<lambda>ic. \<lparr> pg_doc_id = doc_id, pg_field_name = field, pg_chunk_index = fst ic,
                 pg_chunk_text = snd ic, pg_embedding = embed_text (snd ic),
                 pg_metadata = document \<rparr>)
         (enumerate 0 chunks)"

text \<open>
  The loop \<^verbatim>\<open>for text in texts\<close>. With no embedding model the first chunk
  raises \<^verbatim>\<open>AttributeError\<close> at \<^verbatim>\<open>embedding_model.embed_text\<close>.
\<close>

primrec pg_texts_loop ::
  "nat \<Rightarrow> (string \<Rightarrow> 'e) option \<Rightarrow> pyval \<Rightarrow> pyval \<Rightarrow> string \<Rightarrow> int \<Rightarrow> int \<Rightarrow> string \<Rightarrow>
   string list \<Rightarrow> (py_error + 'e pg_row list) option"
where
  "pg_texts_loop fuel embedding_model doc_id document field chunk_size chunk_overlap separator [] =
     Some (Inr [])"
| "pg_texts_loop fuel embedding_model doc_id document field chunk_size chunk_overlap separator
     (text # texts) =
     (if text = []
      then pg_texts_loop fuel embedding_model doc_id document field chunk_size chunk_overlap
             separator texts
      else
        (case pg_create_chunks fuel text chunk_size chunk_overlap separator of
           None \<Rightarrow> None
         | Some (Inl e) \<Rightarrow> Some (Inl e)
         | Some (Inr chunks) \<Rightarrow>
             (case embedding_model of
                None \<Rightarrow>
                  (if chunks = []
                   then pg_texts_loop fuel embedding_model doc_id document field chunk_size
                          chunk_overlap separator texts
                   else Some (Inl AttributeError))
              | Some embed_text \<Rightarrow>
                  (case pg_texts_loop fuel embedding_model doc_id document field chunk_size
                          chunk_overlap separator texts of
                     None \<Rightarrow> None
                   | Some (Inl e) \<Rightarrow> Some (Inl e)
                   | Some (Inr rows) \<Rightarrow>
                       Some (Inr (pg_rows embed_text doc_id document field chunks @ rows))))))"

primrec pg_fields_loop ::
  "nat \<Rightarrow> (string \<Rightarrow> 'e) option \<Rightarrow> pyval \<Rightarrow> pyval \<Rightarrow> int \<Rightarrow> int \<Rightarrow> string \<Rightarrow>
   string list \<Rightarrow> (py_error + 'e pg_row list) option"
where
  "pg_fields_loop fuel embedding_model doc_id document chunk_size chunk_overlap separator [] =
     Some (Inr [])"
| "pg_fields_loop fuel embedding_model doc_id document chunk_size chunk_overlap separator
     (field # rest) =
     (let field_value = get_field_value document field
      in if field_value = PNone
         then pg_fields_loop fuel embedding_model doc_id document chunk_size chunk_overlap
                separator rest
         else
           (case pg_texts_loop fuel embedding_model doc_id document field chunk_size
                   chunk_overlap separator
                   (flatten_list (if is_list field_value then list_items field_value
                                  else [field_value])) of
              None \<Rightarrow> None
            | Some (Inl e) \<Rightarrow> Some (Inl e)
            | Some (Inr rows) \<Rightarrow>
                (case pg_fields_loop fuel embedding_model doc_id document chunk_size
                        chunk_overlap separator rest of
                   None \<Rightarrow> None
                 | Some (Inl e) \<Rightarrow> Some (Inl e)
                 | Some (Inr others) \<Rightarrow> Some (Inr (rows @ others)))))"

text \<open>
  \<^verbatim>\<open>ingest_document\<close> of the pgvector script: the rows written in the
  transaction, an exception (the transaction is rolled back), or \<open>None\<close>
  when a \<^verbatim>\<open>create_chunks\<close> call has not returned within \<open>fuel\<close> iterations.
\<close>

definition pgvector_ingest_document ::
  "nat \<Rightarrow> interp \<Rightarrow> pyval \<Rightarrow> string list \<Rightarrow> int \<Rightarrow> int \<Rightarrow> string \<Rightarrow> (string \<Rightarrow> 'e) option \<Rightarrow>
   (py_error + 'e pg_row list) option"
where
  "pgvector_ingest_document fuel rt document searchable_fields chunk_size chunk_overlap separator
     embedding_model =
     (case document of
        PDict kvs \<Rightarrow>
          pg_fields_loop fuel embedding_model
            (dict_get kvs ''id'' (PStr (str_int (str_hash rt (json_dumps rt document)))))
            document chunk_size chunk_overlap separator searchable_fields
      | _ \<Rightarrow> Some (Inl AttributeError))"

section \<open>pinecone: \<^verbatim>\<open>ingest_document\<close>\<close>

subsection \<open>Field access\<close>





subsection \<open>\<^verbatim>\<open>create_chunks\<close>\<close>

fun pc_chunks_loop ::
  "nat \<Rightarrow> string list \<Rightarrow> string \<Rightarrow> int \<Rightarrow> int \<Rightarrow> int \<Rightarrow> string list \<Rightarrow> string list option"
where
  "pc_chunks_loop 0 words sep chunk_words overlap_words start chunks = None"
| "pc_chunks_loop (Suc fuel) words sep chunk_words overlap_words start chunks =
     (if start < int (length words)
      then pc_chunks_loop fuel words sep chunk_words overlap_words
             (start + chunk_words - overlap_words)
             (chunks @ [py_join sep (py_slice words start (start + chunk_words))])
      else Some chunks)"

definition pc_create_chunks ::
  "nat \<Rightarrow> string \<Rightarrow> int \<Rightarrow> int \<Rightarrow> string \<Rightarrow> (py_error + string list) option"
where
  "pc_create_chunks fuel text chunk_size chunk_overlap separator =
     (if text = [] then Some (Inr [])
      else if separator = [] then Some (Inl ValueError)
      else if py_split separator text = [] then Some (Inr [])
      else map_option Inr
             (pc_chunks_loop fuel (py_split separator text) separator
                (chunk_size div (int (length separator) + 1))
                (chunk_overlap div (int (length separator) + 1)) 0 []))"

subsection \<open>The ingestion loop\<close>









section \<open>langchain: \<^verbatim>\<open>ingest_document\<close>\<close>

text \<open>
  \<^verbatim>\<open>extract_field_value\<close> returns the matched values through \<^verbatim>\<open>str\<close>. The
  concrete path \<^verbatim>\<open>current_path\<close> is built along the way and not returned.
\<close>

fun lc_extract_field_value :: "pyval \<Rightarrow> string list \<Rightarrow> string list \<Rightarrow> string list" where
  "lc_extract_field_value obj [] current_path = [py_str obj]"
| "lc_extract_field_value obj (current # remaining) current_path =
     (if current = ''*'' then
        (if is_list obj
         then concat (map (\<lambda>ii. lc_extract_field_value (snd ii) remaining
                                  (current_path @ [str_nat (fst ii)]))
                        (enumerate 0 (list_items obj)))
         else [])
      else
        (case obj of
           PDict kvs \<Rightarrow>
             (case map_of kvs current of
                Some v \<Rightarrow> lc_extract_field_value v remaining (current_path @ [current])
              | None \<Rightarrow> [])
         | _ \<Rightarrow> []))"

record lc_document =
  lc_page_content :: string
  lc_doc_id :: pyval
  lc_field :: string
  lc_chunk_index :: nat
  lc_chunk_id :: string

definition lc_documents :: "pyval \<Rightarrow> string \<Rightarrow> string list \<Rightarrow> lc_document list" where
  "lc_documents doc_id field_pattern split_texts =
     map (\<lambda>it. \<lparr> lc_page_content = snd it,
                 lc_doc_id = doc_id,
                 lc_field = field_pattern,
                 lc_chunk_index = fst it + 1,
                 lc_chunk_id = py_str doc_id @ ''_'' @ field_pattern @ ''_'' @ str_nat (fst it + 1) \<rparr>)
         (enumerate 0 split_texts)"

text \<open>
  The splitting itself is the library's \<^verbatim>\<open>RecursiveCharacterTextSplitter\<close>, a
  parameter here: \<open>split_text chunk_size chunk_overlap separator value\<close>.
\<close>

primrec lc_values_loop ::
  "(int \<Rightarrow> int \<Rightarrow> string \<Rightarrow> string \<Rightarrow> py_error + string list) \<Rightarrow> pyval \<Rightarrow> string \<Rightarrow> int \<Rightarrow> int \<Rightarrow>
   string \<Rightarrow> string list \<Rightarrow> py_error + lc_document list"
where
  "lc_values_loop split_text doc_id field_pattern chunk_size chunk_overlap separator [] = Inr []"
| "lc_values_loop split_text doc_id field_pattern chunk_size chunk_overlap separator (v # vs) =
     (if v = []
      then lc_values_loop split_text doc_id field_pattern chunk_size chunk_overlap separator vs
      else
        (case split_text chunk_size chunk_overlap separator v of
           Inl e \<Rightarrow> Inl e
         | Inr split_texts \<Rightarrow>
             (case lc_values_loop split_text doc_id field_pattern chunk_size chunk_overlap
                     separator vs of
                Inl e \<Rightarrow> Inl e
              | Inr others \<Rightarrow> Inr (lc_documents doc_id field_pattern split_texts @ others))))"

primrec lc_fields_loop ::
  "(int \<Rightarrow> int \<Rightarrow> string \<Rightarrow> string \<Rightarrow> py_error + string list) \<Rightarrow> pyval \<Rightarrow> pyval \<Rightarrow> int \<Rightarrow> int \<Rightarrow>
   string \<Rightarrow> string list \<Rightarrow> py_error + lc_document list"
where
  "lc_fields_loop split_text doc_id document chunk_size chunk_overlap separator [] = Inr []"
| "lc_fields_loop split_text doc_id document chunk_size chunk_overlap separator
     (field_pattern # rest) =
     (case lc_values_loop split_text doc_id field_pattern chunk_size chunk_overlap separator
             (lc_extract_field_value document (py_split ''.'' field_pattern) []) of
        Inl e \<Rightarrow> Inl e
      | Inr docs \<Rightarrow>
          (case lc_fields_loop split_text doc_id document chunk_size chunk_overlap separator rest of
             Inl e \<Rightarrow> Inl e
           | Inr others \<Rightarrow> Inr (docs @ others)))"

definition langchain_ingest_document ::
  "(int \<Rightarrow> int \<Rightarrow> string \<Rightarrow> string \<Rightarrow> py_error + string list) \<Rightarrow> pyval \<Rightarrow> string list \<Rightarrow> int \<Rightarrow>
   int \<Rightarrow> string \<Rightarrow> py_error + lc_document list"
where
  "langchain_ingest_document split_text document searchable_fields chunk_size chunk_overlap
     separator =
     (case document of
        PDict kvs \<Rightarrow>
          lc_fields_loop split_text (dict_get kvs ''id'' (PStr [])) document chunk_size
            chunk_overlap separator searchable_fields
      | _ \<Rightarrow> Inl AttributeError)"

section \<open>capybaradb: \<^verbatim>\<open>ingest_document\<close>\<close>

text \<open>
  This script writes into the document (\<^verbatim>\<open>current[part] = EmbText(...)\<close>),
  after \<^verbatim>\<open>doc_copy = document.copy()\<close>. Whether the caller sees the writes
  depends on which \<^verbatim>\<open>dict\<close> objects are shared, so the model has a store:
  a heap of \<^verbatim>\<open>dict\<close> and \<^verbatim>\<open>list\<close> objects, addressed by position, whose
  entries are scalars, \<^verbatim>\<open>EmbText\<close> objects or references.

  The class \<^verbatim>\<open>EmbText\<close> is imported from the \<^verbatim>\<open>capybaradb\<close> package. Its
  constructor is a parameter of the model, called with the seven keyword
  arguments of the script in the order \<^verbatim>\<open>text\<close>, \<^verbatim>\<open>emb_model\<close>,
  \<^verbatim>\<open>max_chunk_size\<close>, \<^verbatim>\<open>chunk_overlap\<close>, \<^verbatim>\<open>separators\<close>,
  \<^verbatim>\<open>is_separator_regex\<close>, \<^verbatim>\<open>keep_separator\<close>; it returns the object built
  (of a type \<open>'x\<close>) or the exception it raises, as the package's constructor
  does for a model it does not support. The value of \<^verbatim>\<open>embedding_model\<close> is
  of a type \<open>'m\<close>. The client \<^verbatim>\<open>CapybaraDB()\<close> and \<^verbatim>\<open>collection.insert\<close> are
  outside the model.
\<close>

datatype 'x hval =
    HNone
  | HBool bool
  | HInt int
  | HStr string
  | HRef nat
  | HObj 'x

datatype 'x hobj = HDictObj "(string \<times> 'x hval) list" | HListObj "'x hval list"

type_synonym 'x heap = "'x hobj list"

definition heap_get :: "'x heap \<Rightarrow> nat \<Rightarrow> 'x hobj option" where
  "heap_get h a = (if a < length h then Some (h ! a) else None)"

text \<open>\<^verbatim>\<open>isinstance(current, list)\<close> and the items of a list, through the heap.\<close>

definition h_is_list :: "'x heap \<Rightarrow> 'x hval \<Rightarrow> bool" where
  "h_is_list h v =
     (case v of
        HRef a \<Rightarrow> (case heap_get h a of Some (HListObj xs) \<Rightarrow> True | _ \<Rightarrow> False)
      | _ \<Rightarrow> False)"

definition h_items :: "'x heap \<Rightarrow> 'x hval \<Rightarrow> 'x hval list" where
  "h_items h v =
     (case v of
        HRef a \<Rightarrow> (case heap_get h a of Some (HListObj xs) \<Rightarrow> xs | _ \<Rightarrow> [])
      | _ \<Rightarrow> [])"

text \<open>
  \<^verbatim>\<open>part in current\<close>: a key test on a \<^verbatim>\<open>dict\<close>, an element test on a
  \<^verbatim>\<open>list\<close>, a substring test on a \<^verbatim>\<open>str\<close>, and \<^verbatim>\<open>TypeError\<close> on a value
  that is no container (a number, \<^verbatim>\<open>None\<close>, an \<^verbatim>\<open>EmbText\<close>).
\<close>

definition cb_contains :: "'x heap \<Rightarrow> string \<Rightarrow> 'x hval \<Rightarrow> py_error + bool" where
  "cb_contains h part current =
     (case current of
        HRef a \<Rightarrow>
          (case heap_get h a of
             Some (HDictObj kvs) \<Rightarrow> Inr (map_of kvs part \<noteq> None)
           | Some (HListObj xs) \<Rightarrow> Inr (HStr part \<in> set xs)
           | None \<Rightarrow> Inl TypeError)
      | HStr s \<Rightarrow> Inr (sublist part s)
      | _ \<Rightarrow> Inl TypeError)"

text \<open>
  \<^verbatim>\<open>current[part]\<close> with a string \<^verbatim>\<open>part\<close>: the value on a \<^verbatim>\<open>dict\<close>,
  \<^verbatim>\<open>TypeError\<close> on a \<^verbatim>\<open>list\<close> or a \<^verbatim>\<open>str\<close> (their indices are integers).
\<close>

definition cb_getitem :: "'x heap \<Rightarrow> 'x hval \<Rightarrow> string \<Rightarrow> py_error + 'x hval" where
  "cb_getitem h current part =
     (case current of
        HRef a \<Rightarrow>
          (case heap_get h a of
             Some (HDictObj kvs) \<Rightarrow>
               (case map_of kvs part of Some v \<Rightarrow> Inr v | None \<Rightarrow> Inl KeyError)
           | _ \<Rightarrow> Inl TypeError)
      | _ \<Rightarrow> Inl TypeError)"

text \<open>\<^verbatim>\<open>current[part] = v\<close> on a \<^verbatim>\<open>dict\<close> object: the object at that address is replaced.\<close>

definition cb_setitem :: "'x heap \<Rightarrow> 'x hval \<Rightarrow> string \<Rightarrow> 'x hval \<Rightarrow> py_error + 'x heap" where
  "cb_setitem h current part v =
     (case current of
        HRef a \<Rightarrow>
          (case heap_get h a of
             Some (HDictObj kvs) \<Rightarrow>
               Inr (h[a := HDictObj (if map_of kvs part \<noteq> None
                                     then map (\<lambda>kv. if fst kv = part then (part, v) else kv) kvs
                                     else kvs @ [(part, v)])])
           | _ \<Rightarrow> Inl TypeError)
      | _ \<Rightarrow> Inl TypeError)"

text \<open>A \<^verbatim>\<open>for\<close> loop whose body updates the heap and may raise.\<close>

primrec iter_err :: "('a \<Rightarrow> 's \<Rightarrow> py_error + 's) \<Rightarrow> 'a list \<Rightarrow> 's \<Rightarrow> py_error + 's" where
  "iter_err f [] s = Inr s"
| "iter_err f (x # xs) s = (case f x s of Inl e \<Rightarrow> Inl e | Inr s' \<Rightarrow> iter_err f xs s')"

lemma iter_err_cong [fundef_cong]:
  "xs = ys \<Longrightarrow> s = t \<Longrightarrow> (\<And>x s'. x \<in> set ys \<Longrightarrow> f x s' = g x s') \<Longrightarrow>
   iter_err f xs s = iter_err g ys t"
proof (induction ys arbitrary: xs s t)
  case Nil
  then show ?case by simp
next
  case (Cons y ys)
  then show ?case by (auto split: sum.splits)
qed

text \<open>
  \<^verbatim>\<open>process_field(obj, field_path)\<close>: \<open>cb_walk\<close> is the loop over the
  parts, \<open>rest\<close> being \<^verbatim>\<open>parts[i+1:]\<close>, so that the last part is the one with
  an empty \<open>rest\<close>. At a wildcard over a list it calls itself on every item
  with the re-joined rest, when that string is not empty. At the last part,
  when the value found is a \<^verbatim>\<open>str\<close>, the constructor is called with it and
  with the arguments of \<^verbatim>\<open>ingest_document\<close>; the assignment
  \<^verbatim>\<open>current[part] = ...\<close> takes place only if the constructor returns, and
  its exception leaves the call otherwise.
\<close>

function cb_walk ::
  "(string \<Rightarrow> 'm \<Rightarrow> int \<Rightarrow> int \<Rightarrow> string list \<Rightarrow> bool \<Rightarrow> bool \<Rightarrow> py_error + 'x) \<Rightarrow> 'm \<Rightarrow>
   int \<Rightarrow> int \<Rightarrow> string \<Rightarrow> 'x heap \<Rightarrow> 'x hval \<Rightarrow> string list \<Rightarrow> py_error + 'x heap"
where
  "cb_walk EmbText embedding_model chunk_size chunk_overlap separator h current [] = Inr h"
| "cb_walk EmbText embedding_model chunk_size chunk_overlap separator h current (part # rest) =
     (if part = ''*'' \<and> h_is_list h current then
        (if py_join ''.'' rest \<noteq> []
         then iter_err (\<lambda>item h'. cb_walk EmbText embedding_model chunk_size chunk_overlap
                                     separator h' item (py_split ''.'' (py_join ''.'' rest)))
                (h_items h current) h
         else Inr h)
      else if rest = [] then
        (case cb_contains h part current of
           Inl e \<Rightarrow> Inl e
         | Inr present \<Rightarrow>
             (if present then
                (case cb_getitem h current part of
                   Inl e \<Rightarrow> Inl e
                 | Inr v \<Rightarrow>
                     (case v of
                        HStr text \<Rightarrow>
                          (case EmbText text embedding_model chunk_size chunk_overlap
                                  [separator] False True of
                             Inl e \<Rightarrow> Inl e
                           | Inr emb \<Rightarrow> cb_setitem h current part (HObj emb))
                      | _ \<Rightarrow> Inr h))
              else Inr h))
      else
        (case cb_contains h part current of
           Inl e \<Rightarrow> Inl e
         | Inr present \<Rightarrow>
             (if present then
                (case cb_getitem h current part of
                   Inl e \<Rightarrow> Inl e
                 | Inr v \<Rightarrow>
                     cb_walk EmbText embedding_model chunk_size chunk_overlap separator h v rest)
              else Inr h)))"
  by pat_completeness auto
termination
proof (relation "inv_image (less_than <*lex*> less_than)
        (\<lambda>(EmbText, embedding_model, chunk_size, chunk_overlap, separator, h, current, parts).
           (length (py_join ''.'' parts), length parts))", goal_cases)
  case 1
  show ?case by auto
next
  case (2 EmbText embedding_model chunk_size chunk_overlap separator h current part rest item h')
  then have "part = ''*''" by simp
  then have "length (py_join ''.'' rest) < length (py_join ''.'' (part # rest))"
    using length_join_Cons [of part "''.''" rest] by simp
  then show ?case by (simp add: join_split)
next
  case (3 EmbText embedding_model chunk_size chunk_overlap separator h current part rest present v)
  have "length (py_join ''.'' rest) \<le> length (py_join ''.'' (part # rest))"
    using length_join_Cons [of part "''.''" rest] by simp
  then show ?case by auto
qed

definition process_field ::
  "(string \<Rightarrow> 'm \<Rightarrow> int \<Rightarrow> int \<Rightarrow> string list \<Rightarrow> bool \<Rightarrow> bool \<Rightarrow> py_error + 'x) \<Rightarrow> 'm \<Rightarrow>
   int \<Rightarrow> int \<Rightarrow> string \<Rightarrow> 'x heap \<Rightarrow> 'x hval \<Rightarrow> string \<Rightarrow> py_error + 'x heap"
where
  "process_field EmbText embedding_model chunk_size chunk_overlap separator h obj field_path =
     cb_walk EmbText embedding_model chunk_size chunk_overlap separator h obj
       (py_split ''.'' field_path)"

text \<open>
  \<^verbatim>\<open>ingest_document\<close> of the capybaradb script. \<^verbatim>\<open>document.copy()\<close> is a
  shallow copy: a new object holding the same entries, references included
  (a scalar has no \<^verbatim>\<open>copy\<close>). The result is the heap after the call and the reference to
  \<^verbatim>\<open>doc_copy\<close>, the document handed to \<^verbatim>\<open>collection.insert\<close>, or the
  exception that ended the call.
\<close>

definition capybaradb_ingest_document ::
  "(string \<Rightarrow> 'm \<Rightarrow> int \<Rightarrow> int \<Rightarrow> string list \<Rightarrow> bool \<Rightarrow> bool \<Rightarrow> py_error + 'x) \<Rightarrow>
   'x heap \<Rightarrow> 'x hval \<Rightarrow> string list \<Rightarrow> int \<Rightarrow> int \<Rightarrow> string \<Rightarrow> 'm \<Rightarrow>
   py_error + 'x heap \<times> 'x hval"
where
  "capybaradb_ingest_document EmbText h document searchable_fields chunk_size chunk_overlap
     separator embedding_model =
     (case document of
        HRef a \<Rightarrow>
          (case heap_get h a of
             Some obj \<Rightarrow>
               (case iter_err (\<lambda>field h'. process_field EmbText embedding_model chunk_size
                                             chunk_overlap separator h' (HRef (length h)) field)
                       searchable_fields (h @ [obj]) of
                  Inl e \<Rightarrow> Inl e
                | Inr h' \<Rightarrow> Inr (h', HRef (length h)))
           | None \<Rightarrow> Inl AttributeError)
      | _ \<Rightarrow> Inl AttributeError)"

text \<open>
  The value a reference denotes in a heap, read to a given depth: what the
  caller sees when looking at the document.
\<close>

datatype 'x dval =
    DNone
  | DBool bool
  | DInt int
  | DStr string
  | DObj 'x
  | DList "'x dval list"
  | DDict "(string \<times> 'x dval) list"
  | DCut

fun snapshot :: "nat \<Rightarrow> 'x heap \<Rightarrow> 'x hval \<Rightarrow> 'x dval" where
  "snapshot 0 h v = DCut"
| "snapshot (Suc n) h v =
     (case v of
        HNone \<Rightarrow> DNone
      | HBool b \<Rightarrow> DBool b
      | HInt i \<Rightarrow> DInt i
      | HStr s \<Rightarrow> DStr s
      | HObj x \<Rightarrow> DObj x
      | HRef a \<Rightarrow>
          (case heap_get h a of
             Some (HDictObj kvs) \<Rightarrow> DDict (map (\<lambda>kv. (fst kv, snapshot n h (snd kv))) kvs)
           | Some (HListObj xs) \<Rightarrow> DList (map (snapshot n h) xs)
           | None \<Rightarrow> DCut))"

section \<open>Notions used to state the properties\<close>

subsection \<open>Words\<close>

text \<open>
  A list of words that \<^verbatim>\<open>split\<close> can return: at no position inside a word
  does the separator occur in the text joined from that word on.
\<close>

fun clean :: "string \<Rightarrow> string list \<Rightarrow> bool" where
  "clean sep [] = True"
| "clean sep (w # ws) =
     ((\<forall>i<length w. take (length sep) (drop i (py_join sep (w # ws))) \<noteq> sep) \<and> clean sep ws)"

subsection \<open>Fields and their records\<close>

text \<open>
  The operations one entry of \<^verbatim>\<open>searchable_fields\<close> adds to mongo's
  \<^verbatim>\<open>bulk_operations\<close> (the body of the loop, for a run that raises nothing).
\<close>

definition mg_ops_of ::
  "(string \<Rightarrow> 'e) option \<Rightarrow> pyval \<Rightarrow> pyval \<Rightarrow> int \<Rightarrow> int \<Rightarrow> string \<Rightarrow> string \<Rightarrow> 'e mongo_op list" where
  "mg_ops_of em document d cs co sep field =
     (if extract_field_content document (py_split ''.'' field) = [] then []
      else mg_field_ops em d field cs co
             (projr (chunk_text sep cs co (extract_field_content document (py_split ''.'' field)))))"

text \<open>
  The fields a call resolves: for chroma the \<open>(path, text)\<close> pairs of all
  patterns in order, for langchain the non-empty values, each with its
  pattern.
\<close>

definition chroma_resolved :: "string \<Rightarrow> pyval \<Rightarrow> string list \<Rightarrow> (string \<times> string) list" where
  "chroma_resolved separator document searchable_fields =
     concat (map (\<lambda>field_pattern.
                    chroma_extract_field_value separator document (py_split ''.'' field_pattern) [])
               searchable_fields)"

definition lc_resolved :: "pyval \<Rightarrow> string list \<Rightarrow> (string \<times> string) list" where
  "lc_resolved document searchable_fields =
     concat (map (\<lambda>field_pattern.
                    map (Pair field_pattern)
                      (filter (\<lambda>value. value \<noteq> [])
                         (lc_extract_field_value document (py_split ''.'' field_pattern) [])))
               searchable_fields)"

text \<open>
  The records of one field, as a group: all of them name the field, their
  chunk indices count up from 1 (mongo, langchain) or from 0 (chroma) without
  a gap, and in mongo each carries the size of the group as its total.
\<close>

definition mg_group :: "string \<Rightarrow> 'e mongo_op list \<Rightarrow> bool" where
  "mg_group field g =
     (map mg_field g = replicate (length g) field
      \<and> map mg_chunk_index g = map int [1..<Suc (length g)]
      \<and> map mg_total_chunks g = replicate (length g) (length g))"

definition ch_group :: "string \<Rightarrow> chroma_chunk list \<Rightarrow> bool" where
  "ch_group field_path g =
     (map ch_field g = replicate (length g) field_path
      \<and> map ch_chunk_index g = [0..<length g])"

definition lc_group :: "string \<Rightarrow> lc_document list \<Rightarrow> bool" where
  "lc_group field_pattern g =
     (map lc_field g = replicate (length g) field_pattern
      \<and> map lc_chunk_index g = [1..<Suc (length g)])"

subsection \<open>Resolution misses\<close>

text \<open>
  A resolution miss, in the words of the specification: a literal segment is
  absent from its mapping or is applied to a value that is no mapping; a
  wildcard is applied to a value that is no sequence, or every element
  misses the rest of the path.
\<close>

fun path_miss :: "pyval \<Rightarrow> string list \<Rightarrow> bool" where
  "path_miss v [] = False"
| "path_miss v (p # ps) =
     (if p = ''*'' then
        (case v of PList xs \<Rightarrow> list_all (\<lambda>x. path_miss x ps) xs | _ \<Rightarrow> True)
      else
        (case v of
           PDict kvs \<Rightarrow> (case map_of kvs p of None \<Rightarrow> True | Some w \<Rightarrow> path_miss w ps)
         | _ \<Rightarrow> True))"

text \<open>The narrower miss: along mappings only, a literal segment is absent.\<close>

fun key_absent :: "pyval \<Rightarrow> string list \<Rightarrow> bool" where
  "key_absent v [] = False"
| "key_absent v (p # ps) =
     (case v of
        PDict kvs \<Rightarrow> (case map_of kvs p of None \<Rightarrow> True | Some w \<Rightarrow> key_absent w ps)
      | _ \<Rightarrow> False)"

text \<open>Some mapping inside the value has a key named \<^verbatim>\<open>*\<close>.\<close>

fun has_star_key :: "pyval \<Rightarrow> bool" where
  "has_star_key (PDict kvs) = list_ex (\<lambda>kv. fst kv = ''*'' \<or> has_star_key (snd kv)) kvs"
| "has_star_key (PList xs) = list_ex has_star_key xs"
| "has_star_key v = False"

subsection \<open>Overlap\<close>

text \<open>
  The length of the text two consecutive chunks share: the longest prefix of
  the later chunk that is a suffix of the earlier one.
\<close>

definition shared_prefix_length :: "string \<Rightarrow> string \<Rightarrow> nat" where
  "shared_prefix_length prev cur =
     last (filter (\<lambda>k. take k cur = drop (length prev - k) prev)
             [0..<Suc (min (length prev) (length cur))])"

text \<open>
  The word loop of the chroma script once more, keeping each stored chunk as
  its list of words: the successive values of \<^verbatim>\<open>current_chunk\<close> handed to
  \<^verbatim>\<open>create_chunk\<close> (lemma \<open>chroma_texts\<close> below relates it to
  \<open>chroma_words_loop\<close>).
\<close>

primrec chroma_pack ::
  "string \<Rightarrow> int \<Rightarrow> int \<Rightarrow> string list \<Rightarrow> string list \<Rightarrow> int \<Rightarrow> string list list"
where
  "chroma_pack separator chunk_size chunk_overlap [] current_chunk current_length =
     (if current_chunk \<noteq> [] then [current_chunk] else [])"
| "chroma_pack separator chunk_size chunk_overlap (word # ws) current_chunk current_length =
     (let word_length =
            int (length word) + (if current_chunk \<noteq> [] then int (length separator) else 0)
      in if current_length + word_length > chunk_size \<and> current_chunk \<noteq> [] then
           current_chunk
           # (let ov = chroma_overlap separator chunk_overlap (rev current_chunk) [] 0
              in chroma_pack separator chunk_size chunk_overlap ws
                   (fst ov @ [word]) (snd ov + word_length))
         else chroma_pack separator chunk_size chunk_overlap ws
                (current_chunk @ [word]) (current_length + word_length))"

text \<open>
  The cost of carrying words over: each word counts with one separator. The
  words a chunk hands on to the next one are its longest run of trailing
  words whose cost is at most \<open>chunk_overlap\<close> (no word when not even the
  empty run fits, that is when the overlap is negative). A chunk \<open>b\<close> is
  seeded from its predecessor \<open>a\<close> when it begins with the words carried
  from \<open>a\<close> and goes on with at least one more word.
\<close>

definition overlap_cost :: "string \<Rightarrow> string list \<Rightarrow> int" where
  "overlap_cost separator ws = sum_list (map (\<lambda>w. int (length w) + int (length separator)) ws)"

definition carried :: "string \<Rightarrow> int \<Rightarrow> string list \<Rightarrow> string list" where
  "carried separator chunk_overlap chunk =
     last ([] # filter (\<lambda>s. overlap_cost separator s \<le> chunk_overlap) (suffixes chunk))"

definition seeded :: "string \<Rightarrow> int \<Rightarrow> string list \<Rightarrow> string list \<Rightarrow> bool" where
  "seeded separator chunk_overlap a b =
     (prefix (carried separator chunk_overlap a) b
      \<and> length (carried separator chunk_overlap a) < length b)"

fun all_seeded :: "string \<Rightarrow> int \<Rightarrow> string list list \<Rightarrow> bool" where
  "all_seeded separator chunk_overlap (a # b # rest) =
     (seeded separator chunk_overlap a b \<and> all_seeded separator chunk_overlap (b # rest))"
| "all_seeded separator chunk_overlap chunks = True"

text \<open>
  The chunks of one field in the chroma script overlap as intended when their
  texts, split into words again, are seeded each from the one before.
\<close>

definition ch_overlapping :: "string \<Rightarrow> int \<Rightarrow> chroma_chunk list \<Rightarrow> bool" where
  "ch_overlapping separator chunk_overlap g =
     all_seeded separator chunk_overlap (map (\<lambda>c. py_split separator (ch_text c)) g)"

text \<open>
  The packing loop of mongo's \<^verbatim>\<open>chunk_text\<close> once more, keeping each chunk
  as its list of words, and its overlap pass on word lists: every chunk after
  the first is preceded by the last \<open>chunk_overlap\<close> words of the packed
  chunk before it.
\<close>

primrec mg_pack_words ::
  "int \<Rightarrow> string list \<Rightarrow> string list list \<Rightarrow> string list \<Rightarrow> int \<Rightarrow> string list list"
where
  "mg_pack_words chunk_size [] chunks current_chunk current_length =
     (if current_chunk \<noteq> [] then chunks @ [current_chunk] else chunks)"
| "mg_pack_words chunk_size (word # ws) chunks current_chunk current_length =
     (if current_length + int (length word) + 1 \<le> chunk_size
      then mg_pack_words chunk_size ws chunks (current_chunk @ [word])
             (current_length + int (length word) + 1)
      else mg_pack_words chunk_size ws
             (if current_chunk \<noteq> [] then chunks @ [current_chunk] else chunks)
             [word] (int (length word) + 1))"

definition mg_overlap_words :: "int \<Rightarrow> string list list \<Rightarrow> string list list" where
  "mg_overlap_words chunk_overlap packed =
     (case packed of [] \<Rightarrow> []
      | p # ps \<Rightarrow> p # map (\<lambda>ab. drop (length (fst ab) - nat chunk_overlap) (fst ab) @ snd ab) (zip packed ps))"

text \<open>
  Overlap counted in words: a chunk \<open>b\<close> begins with the last \<open>k\<close> words
  of its predecessor \<open>a\<close>, for some \<open>k\<close> from 1 to \<open>chunk_overlap\<close>, and
  goes on with at least one more word.
\<close>

definition mg_seeded :: "int \<Rightarrow> string list \<Rightarrow> string list \<Rightarrow> bool" where
  "mg_seeded chunk_overlap a b =
     list_ex (\<lambda>k. prefix (drop (length a - k) a) b \<and> k < length b)
       [1..<Suc (min (nat chunk_overlap) (length a))]"

fun mg_all_seeded :: "int \<Rightarrow> string list list \<Rightarrow> bool" where
  "mg_all_seeded chunk_overlap (a # b # rest) =
     (mg_seeded chunk_overlap a b \<and> mg_all_seeded chunk_overlap (b # rest))"
| "mg_all_seeded chunk_overlap chunks = True"

text \<open>
  The records of one field in the mongo script overlap in words when their
  texts, split into words again, are seeded each from the one before; with
  no positive overlap they partition the words of the field's content.
\<close>

definition mg_overlapping :: "string \<Rightarrow> int \<Rightarrow> string \<Rightarrow> 'e mongo_op list \<Rightarrow> bool" where
  "mg_overlapping separator chunk_overlap content g =
     (if chunk_overlap > 0
      then mg_all_seeded chunk_overlap (map (\<lambda>op. py_split separator (mg_text op)) g)
      else concat (map (\<lambda>op. py_split separator (mg_text op)) g)
           = (if content = [] then [] else py_split separator content))"

subsection \<open>Chunk size and embedding model\<close>

text \<open>
  One chunk per word: the words themselves, each one after the first preceded
  by the word before it and a separator when the overlap is positive.
\<close>

definition word_chunks :: "string \<Rightarrow> int \<Rightarrow> string list \<Rightarrow> string list" where
  "word_chunks separator chunk_overlap words =
     (if chunk_overlap > 0 \<and> length words > 1
      then hd words # map (\<lambda>pw. fst pw @ separator @ snd pw) (zip words (tl words))
      else words)"

text \<open>
  The values that the langchain script resolves, over all field patterns in
  order (the empty ones included, which its loop skips).
\<close>

definition lc_values :: "pyval \<Rightarrow> string list \<Rightarrow> string list" where
  "lc_values document searchable_fields =
     concat (map (\<lambda>field_pattern. lc_extract_field_value document (py_split ''.'' field_pattern) [])
               searchable_fields)"


subsection \<open>Instances of the library parameters\<close>

text \<open>
  A constructor to instantiate the \<^verbatim>\<open>EmbText\<close> parameter with. It raises
  \<^verbatim>\<open>ValueError\<close> when the model is missing (\<^verbatim>\<open>None\<close>) and when the text is
  blank, and otherwise returns its first five arguments as the object.
\<close>

definition checked_emb_text ::
  "string \<Rightarrow> string option \<Rightarrow> int \<Rightarrow> int \<Rightarrow> string list \<Rightarrow> bool \<Rightarrow> bool \<Rightarrow>
   py_error + string \<times> string \<times> int \<times> int \<times> string list"
where
  "checked_emb_text text emb_model max_chunk_size chunk_overlap separators is_separator_regex
     keep_separator =
     (case emb_model of
        None \<Rightarrow> Inl ValueError
      | Some name \<Rightarrow>
          (if filter (\<lambda>c. c \<noteq> CHR '' '') text = [] then Inl ValueError
           else Inr (text, name, max_chunk_size, chunk_overlap, separators)))"

text \<open>
  A splitter to instantiate the \<^verbatim>\<open>split_text\<close> parameter with: it rejects a
  non-positive chunk size with \<^verbatim>\<open>ValueError\<close> and otherwise splits the text
  at the separator.
\<close>

definition checked_splitter :: "int \<Rightarrow> int \<Rightarrow> string \<Rightarrow> string \<Rightarrow> py_error + string list" where
  "checked_splitter chunk_size chunk_overlap separator text =
     (if chunk_size \<le> 0 then Inl ValueError else Inr (py_split separator text))"

section \<open>Verified properties\<close>

subsection \<open>Evaluation helpers\<close>

lemma str_nat_digit: "n < 10 \<Longrightarrow> str_nat n = [''0123456789'' ! n]"
  by (simp add: str_nat.simps)

lemma map_fst_enum: "map (\<lambda>x. g (fst x)) (enumerate n xs) = map g [n..<n + length xs]"
proof -
  have "map (g \<circ> fst) (enumerate n xs) = map g (map fst (enumerate n xs))"
    by (simp only: map_map)
  also have "\<dots> = map g [n..<n + length xs]"
    by (simp only: map_fst_enumerate)
  finally show ?thesis by (simp only: o_def)
qed

lemma map_snd_enum: "map (\<lambda>x. g (snd x)) (enumerate n xs) = map g xs"
proof -
  have "map (g \<circ> snd) (enumerate n xs) = map g (map snd (enumerate n xs))"
    by (simp only: map_map)
  also have "\<dots> = map g xs"
    by (simp only: map_snd_enumerate)
  finally show ?thesis by (simp only: o_def)
qed

lemma map_const_enum: "map (\<lambda>x. c) (enumerate n xs) = replicate (length xs) c"
  by (simp add: map_replicate_const)

lemma replicate5: "replicate 5 x = [x, x, x, x, x]"
  by (simp add: eval_nat_numeral)

lemma upt5: "[0..<5] = [0, 1, 2, 3, 4]"
  by code_simp

lemma create_chunk_sel:
  "ch_id (create_chunk d t f i) = py_str d @ ''_'' @ f @ ''_chunk_'' @ str_nat i"
  "ch_text (create_chunk d t f i) = t"
  "ch_field (create_chunk d t f i) = f"
  "ch_chunk_index (create_chunk d t f i) = i"
  by (simp_all add: create_chunk_def)

lemma mg_field_ops_sel:
  "map mg_text (mg_field_ops em d f cs co chunks) = chunks"
  "map mg_chunk_index (mg_field_ops em d f cs co chunks) = map (\<lambda>i. int i + 1) [0..<length chunks]"
  "map mg_chunk_id (mg_field_ops em d f cs co chunks) =
     map (\<lambda>i. f @ ''_chunk_'' @ str_int (int i + 1)) [0..<length chunks]"
  "map mg_doc_id (mg_field_ops em d f cs co chunks) = replicate (length chunks) d"
  "map mg_total_chunks (mg_field_ops em d f cs co chunks) = replicate (length chunks) (length chunks)"
  "map mg_field (mg_field_ops em d f cs co chunks) = replicate (length chunks) f"
  using map_snd_enum [of "\<lambda>x. x" 0 chunks] map_fst_enum [of "\<lambda>i. int i + 1" 0 chunks]
    map_fst_enum [of "\<lambda>i. f @ ''_chunk_'' @ str_int (int i + 1)" 0 chunks]
  by (simp_all add: mg_field_ops_def o_def map_const_enum)

lemma chunk_text_Inr:
  "separator \<noteq> [] \<Longrightarrow>
   chunk_text separator cs co text =
   Inr (if co > 0 \<and> length (mg_pack separator cs (py_split separator text) [] [] 0) > 1
        then mg_overlapped separator co (mg_pack separator cs (py_split separator text) [] [] 0)
        else mg_pack separator cs (py_split separator text) [] [] 0)"
  by (simp add: chunk_text_def Let_def)

subsection \<open>The words of a split\<close>

text \<open>
  The words returned by \<^verbatim>\<open>split\<close> are clean, a clean list of words is
  returned unchanged by \<^verbatim>\<open>split\<close> after \<^verbatim>\<open>join\<close>, and every run of
  consecutive words of a clean list is clean. So joining a run of words of a
  split text and splitting it again gives the run back; in particular
  splitting a word again gives that word.
\<close>

lemma take_drop_append:
  assumes "take (length sep) (drop i xs) = sep"
  shows "take (length sep) (drop i (xs @ ys)) = sep"
proof -
  have "length (take (length sep) (drop i xs)) = length sep" using assms by simp
  then have "length sep \<le> length (drop i xs)" by simp
  then show ?thesis using assms by simp
qed

lemma split_from_clean:
  "sep \<noteq> [] \<Longrightarrow> (\<forall>i<length acc. take (length sep) (drop i (acc @ s)) \<noteq> sep) \<Longrightarrow>
   clean sep (split_from sep acc s)"
proof (induction sep acc s rule: split_from.induct)
  case (1 sep acc)
  then show ?case by simp
next
  case (2 sep acc c cs)
  show ?case
  proof (cases "sep \<noteq> [] \<and> take (length sep) (c # cs) = sep")
    case True
    have j: "py_join sep (split_from sep acc (c # cs)) = acc @ c # cs"
      by (rule join_split_from)
    have r: "clean sep (split_from sep [] (drop (length sep) (c # cs)))"
      using "2.IH"(1) [OF True] "2.prems"(1) by simp
    have eq: "split_from sep acc (c # cs) = acc # split_from sep [] (drop (length sep) (c # cs))"
      using True by simp
    show ?thesis
      unfolding eq clean.simps
      using r "2.prems"(2) j unfolding eq by simp
  next
    case False
    then have no: "take (length sep) (c # cs) \<noteq> sep" using "2.prems"(1) by auto
    have "take (length sep) (drop i ((acc @ [c]) @ cs)) \<noteq> sep" if "i < length (acc @ [c])" for i
    proof (cases "i < length acc")
      case True
      then show ?thesis using "2.prems"(2) by simp
    next
      case False
      then have "i = length acc" using that by simp
      then show ?thesis using no by simp
    qed
    then have c: "clean sep (split_from sep (acc @ [c]) cs)"
      using "2.IH"(2) [OF False "2.prems"(1)] by blast
    have "split_from sep acc (c # cs) = split_from sep (acc @ [c]) cs"
      using no by simp
    then show ?thesis using c by (simp only:)
  qed
qed

lemma split_clean: "sep \<noteq> [] \<Longrightarrow> clean sep (py_split sep s)"
  using split_from_clean [of sep "[]" s] by (simp add: py_split_def)

lemma split_from_unmatched:
  "(\<forall>i<length w. take (length sep) (drop i (w @ rest)) \<noteq> sep) \<Longrightarrow>
   split_from sep acc (w @ rest) = split_from sep (acc @ w) rest"
proof (induction w arbitrary: acc)
  case Nil
  then show ?case by simp
next
  case (Cons c cs)
  have "take (length sep) (drop 0 ((c # cs) @ rest)) \<noteq> sep"
    using Cons.prems by blast
  then have no: "take (length sep) (c # cs @ rest) \<noteq> sep" by simp
  have "take (length sep) (drop i (cs @ rest)) \<noteq> sep" if "i < length cs" for i
  proof -
    have "take (length sep) (drop (Suc i) ((c # cs) @ rest)) \<noteq> sep"
      using Cons.prems that by (metis Suc_less_eq length_Cons)
    then show ?thesis by simp
  qed
  then have "split_from sep (acc @ [c]) (cs @ rest) = split_from sep ((acc @ [c]) @ cs) rest"
    by (intro Cons.IH) blast
  then show ?case using no by simp
qed

lemma split_from_at_sep:
  "sep \<noteq> [] \<Longrightarrow> split_from sep acc (sep @ rest) = acc # split_from sep [] rest"
  by (cases sep) simp_all

lemma split_from_join:
  "sep \<noteq> [] \<Longrightarrow> clean sep (w # ws) \<Longrightarrow>
   split_from sep acc (py_join sep (w # ws)) = (acc @ w) # ws"
proof (induction ws arbitrary: w acc)
  case Nil
  then have "\<forall>i<length w. take (length sep) (drop i (w @ [])) \<noteq> sep" by simp
  then have "split_from sep acc (w @ []) = split_from sep (acc @ w) []"
    by (rule split_from_unmatched)
  then show ?case by simp
next
  case (Cons v vs)
  have j: "py_join sep (w # v # vs) = w @ sep @ py_join sep (v # vs)" by simp
  have "\<forall>i<length w. take (length sep) (drop i (w @ sep @ py_join sep (v # vs))) \<noteq> sep"
    using Cons.prems(2) unfolding clean.simps j by blast
  then have "split_from sep acc (w @ sep @ py_join sep (v # vs))
             = split_from sep (acc @ w) (sep @ py_join sep (v # vs))"
    by (rule split_from_unmatched)
  also have "\<dots> = (acc @ w) # split_from sep [] (py_join sep (v # vs))"
    using Cons.prems(1) by (rule split_from_at_sep)
  also have "split_from sep [] (py_join sep (v # vs)) = ([] @ v) # vs"
    using Cons.prems by (intro Cons.IH) simp_all
  finally show ?case unfolding j by simp
qed

lemma split_join_clean:
  "sep \<noteq> [] \<Longrightarrow> clean sep ws \<Longrightarrow> ws \<noteq> [] \<Longrightarrow> py_split sep (py_join sep ws) = ws"
  using split_from_join [of sep "hd ws" "tl ws" "[]"] by (cases ws) (simp_all add: py_split_def)

lemma py_join_append:
  "xs \<noteq> [] \<Longrightarrow> ys \<noteq> [] \<Longrightarrow> py_join sep (xs @ ys) = py_join sep xs @ sep @ py_join sep ys"
proof (induction xs)
  case Nil
  then show ?case by simp
next
  case (Cons x xs)
  show ?case
  proof (cases "xs = []")
    case True
    then show ?thesis using Cons.prems by (simp add: py_join_Cons)
  next
    case False
    then show ?thesis using Cons by (simp add: py_join_Cons)
  qed
qed

lemma clean_suffix: "clean sep (xs @ ys) \<Longrightarrow> clean sep ys"
  by (induction xs) simp_all

lemma clean_prefix: "clean sep (xs @ ys) \<Longrightarrow> clean sep xs"
proof (induction xs)
  case Nil
  then show ?case by simp
next
  case (Cons w xs)
  have rest: "clean sep xs" using Cons by simp
  have u: "\<forall>i<length w. take (length sep) (drop i (py_join sep (w # xs @ ys))) \<noteq> sep"
    using Cons.prems by simp
  have "\<exists>t. py_join sep (w # xs @ ys) = py_join sep (w # xs) @ t"
  proof (cases "ys = []")
    case True
    then show ?thesis by simp
  next
    case False
    then have "py_join sep ((w # xs) @ ys) = py_join sep (w # xs) @ sep @ py_join sep ys"
      by (intro py_join_append) simp_all
    then show ?thesis by simp
  qed
  then obtain t where t: "py_join sep (w # xs @ ys) = py_join sep (w # xs) @ t" ..
  have "take (length sep) (drop i (py_join sep (w # xs))) \<noteq> sep" if "i < length w" for i
    using u that take_drop_append [of sep i "py_join sep (w # xs)" t] unfolding t by blast
  then show ?case using rest by simp
qed

lemma clean_sublist: "clean sep ws \<Longrightarrow> sublist p ws \<Longrightarrow> clean sep p"
  unfolding sublist_def using clean_prefix clean_suffix by blast

lemma split_join_run:
  assumes "sep \<noteq> []" and "sublist p (py_split sep s)" and "p \<noteq> []"
  shows "py_split sep (py_join sep p) = p"
  using assms split_clean clean_sublist split_join_clean by blast

lemma split_word:
  assumes "sep \<noteq> []" and "w \<in> set (py_split sep s)"
  shows "py_split sep w = [w]"
proof -
  obtain xs ys where "py_split sep s = xs @ [w] @ ys"
    using assms(2) by (metis append_Cons append_Nil split_list)
  then have "sublist [w] (py_split sep s)" unfolding sublist_def by blast
  then have "py_split sep (py_join sep [w]) = [w]"
    using assms(1) by (intro split_join_run) simp_all
  then show ?thesis by simp
qed

subsection \<open>Stable identifiers (C1)\<close>

text \<open>
  When the document has an \<^verbatim>\<open>"id"\<close>, the pgvector rows do not depend on the
  interpreter's hash.
\<close>

lemma pgvector_rows_fixed_by_id:
  "map_of kvs ''id'' = Some d \<Longrightarrow>
   pgvector_ingest_document fuel rt (PDict kvs) fs cs co sep em =
   pgvector_ingest_document fuel rt' (PDict kvs) fs cs co sep em"
  by (simp add: pgvector_ingest_document_def dict_get_def)

text \<open>
  C1 (two ingestions of the same document give the same records, so that
  re-ingestion reproduces the identifiers) fails in the pgvector script for a
  document without an \<^verbatim>\<open>"id"\<close>: its \<^verbatim>\<open>doc_id\<close> is
  \<^verbatim>\<open>str(hash(json.dumps(document, sort_keys=True)))\<close>, and the hash of a string
  differs from one interpreter process to the next. Under a process whose
  hash of the dumped document is 1 the row is keyed \<open>("1", "title", 0)\<close>,
  under one where it is 2 the same document is keyed \<open>("2", "title", 0)\<close>.
\<close>

theorem pgvector_doc_id_follows_hash_salt:
  "pgvector_ingest_document 1 \<lparr>json_dumps = dumps, str_hash = (\<lambda>s. 1)\<rparr>
     (PDict [(''title'', PStr ''a b'')]) [''title''] 512 50 '' '' (Some em)
   = Some (Inr [\<lparr>pg_doc_id = PStr ''1'', pg_field_name = ''title'', pg_chunk_index = 0,
                  pg_chunk_text = ''a b'', pg_embedding = em ''a b'',
                  pg_metadata = PDict [(''title'', PStr ''a b'')]\<rparr>])
   \<and>
   pgvector_ingest_document 1 \<lparr>json_dumps = dumps, str_hash = (\<lambda>s. 2)\<rparr>
     (PDict [(''title'', PStr ''a b'')]) [''title''] 512 50 '' '' (Some em)
   = Some (Inr [\<lparr>pg_doc_id = PStr ''2'', pg_field_name = ''title'', pg_chunk_index = 0,
                  pg_chunk_text = ''a b'', pg_embedding = em ''a b'',
                  pg_metadata = PDict [(''title'', PStr ''a b'')]\<rparr>])"
  by (simp add: pgvector_ingest_document_def get_field_value_def flatten_list_def
      pg_create_chunks_def pg_rows_def dict_get_def str_int_def py_split_def str_nat_digit)

subsection \<open>Chunker termination (C2)\<close>

lemma pg_loop_stuck:
  assumes "start < length words"
    and "\<not> int (length (py_join sep (drop start words))) \<le> chunk_size"
    and "nat (max (int start) (int (pg_scan words chunk_size start 0) -
           max 1 (py_trunc_div overlap (int (length sep) +
             sum_list (map (int \<circ> length)
               (py_slice words (int (pg_scan words chunk_size start 0) - 1)
                  (int (pg_scan words chunk_size start 0)))))))) = start"
  shows "pg_chunks_loop fuel words chunk_size overlap sep start chunks = None"
  using assms
  by (induction fuel arbitrary: chunks) (simp_all add: Let_def)

lemma pc_loop_stuck:
  assumes "start < int (length words)" and "chunk_words = overlap_words"
  shows "pc_chunks_loop fuel words sep chunk_words overlap_words start chunks = None"
  using assms
  by (induction fuel arbitrary: chunks) simp_all

text \<open>
  C2 (termination of chunking for every non-empty text, \<open>chunkSize \<ge> 1\<close> and
  \<open>chunkOverlap \<ge> 0\<close>) does not hold of the two \<^verbatim>\<open>create_chunks\<close> functions.
  In pgvector, a first word longer than \<^verbatim>\<open>chunk_size\<close> leaves \<^verbatim>\<open>end = start\<close>,
  and \<^verbatim>\<open>max(start, end - ...)\<close> never moves \<^verbatim>\<open>start\<close>: on the text
  \<^verbatim>\<open>"abcd e"\<close> with chunk size 3 and overlap 0 the outer loop exits for no
  number of iterations. In pinecone, chunk size 2 and overlap 2 with a
  one-character separator give one word per chunk and one word of overlap, so
  \<^verbatim>\<open>start\<close> stays 0 on \<^verbatim>\<open>"a b"\<close>.
\<close>

theorem create_chunks_diverges:
  "(\<forall>fuel. pg_create_chunks fuel ''abcd e'' 3 0 '' '' = None) \<and>
   (\<forall>fuel. pc_create_chunks fuel ''a b'' 2 2 '' '' = None)"
proof (intro conjI allI)
  fix fuel
  have w: "py_split '' '' ''abcd e'' = [''abcd'', ''e'']"
    by (simp add: py_split_def)
  have s: "pg_scan [''abcd'', ''e''] 3 0 0 = 0"
    by (simp add: pg_scan.simps)
  have "pg_chunks_loop fuel [''abcd'', ''e''] 3 0 '' '' 0 [] = None"
    by (rule pg_loop_stuck) (simp_all add: s py_slice_def slice_bound_def py_trunc_div_def)
  then show "pg_create_chunks fuel ''abcd e'' 3 0 '' '' = None"
    by (simp add: pg_create_chunks_def w)
next
  fix fuel
  have w: "py_split '' '' ''a b'' = [''a'', ''b'']"
    by (simp add: py_split_def)
  have "pc_chunks_loop fuel [''a'', ''b''] '' '' 1 1 0 [] = None"
    by (rule pc_loop_stuck) simp_all
  then show "pc_create_chunks fuel ''a b'' 2 2 '' '' = None"
    by (simp add: pc_create_chunks_def w)
qed

subsection \<open>The five-word scenario (C3)\<close>

lemma chroma_scenario:
  "chroma_ingest_document (PDict [(''id'', PStr ''d1''), (''title'', PStr ''a b c d e'')])
     [''title''] 3 1 '' '' =
   Inr [create_chunk (PStr ''d1'') ''a b'' ''title'' 0, create_chunk (PStr ''d1'') ''c'' ''title'' 1,
        create_chunk (PStr ''d1'') ''d'' ''title'' 2, create_chunk (PStr ''d1'') ''e'' ''title'' 3]"
  by (simp add: chroma_ingest_document_def py_split_def eval_nat_numeral)

lemma mongo_scenario:
  "mongo_ingest_document (PDict [(''id'', PStr ''d1''), (''title'', PStr ''a b c d e'')])
     [''title''] 3 1 '' '' em =
   Inr (mg_field_ops em (PStr ''d1'') ''title'' 3 1 [''a'', ''a b'', ''b c'', ''c d'', ''d e''])"
  by (simp add: mongo_ingest_document_def dict_get_def chunk_text_def py_split_def
      mg_overlapped_def mg_overlap_chunk_def py_slice_def slice_bound_def)

lemma pg_chunks_scenario:
  "pg_create_chunks 4 ''a b c d e'' 3 1 '' '' = Some (Inr [''a b'', ''b c'', ''c d'', ''d e''])"
  by code_simp

lemma pg_field_scenario:
  "get_field_value (PDict [(''id'', PStr ''d1''), (''title'', PStr ''a b c d e'')]) ''title''
   = PStr ''a b c d e''"
  by code_simp

lemma pg_scenario:
  "pgvector_ingest_document 4 rt (PDict [(''id'', PStr ''d1''), (''title'', PStr ''a b c d e'')])
     [''title''] 3 1 '' '' (Some em) =
   Some (Inr (pg_rows em (PStr ''d1'') (PDict [(''id'', PStr ''d1''), (''title'', PStr ''a b c d e'')])
     ''title'' [''a b'', ''b c'', ''c d'', ''d e'']))"
  by (simp add: pgvector_ingest_document_def pg_field_scenario pg_chunks_scenario flatten_list_def
      dict_get_def)

text \<open>
  C3 as stated: on \<^verbatim>\<open>{"id":"d1","title":"a b c d e"}\<close>, fields
  \<^verbatim>\<open>["title"]\<close>, chunk size 3, separator \<^verbatim>\<open>" "\<close>, overlap 1, the chunks are
  \<^verbatim>\<open>["a b","b c","c d","d e"]\<close>. Neither the chroma nor the mongo script
  produces these texts.
\<close>

theorem scenario_counterexample:
  "(\<nexists>cs. chroma_ingest_document (PDict [(''id'', PStr ''d1''), (''title'', PStr ''a b c d e'')])
            [''title''] 3 1 '' '' = Inr cs
         \<and> map ch_text cs = [''a b'', ''b c'', ''c d'', ''d e''])
   \<and> (\<nexists>ops. mongo_ingest_document (PDict [(''id'', PStr ''d1''), (''title'', PStr ''a b c d e'')])
            [''title''] 3 1 '' '' None = Inr ops
         \<and> map mg_text ops = [''a b'', ''b c'', ''c d'', ''d e''])"
  by (simp add: chroma_scenario mongo_scenario mg_field_ops_sel create_chunk_sel)

text \<open>
  C3 amended: on that input chroma produces \<^verbatim>\<open>["a b","c","d","e"]\<close> with
  identifiers \<^verbatim>\<open>d1_title_chunk_0\<close> to \<^verbatim>\<open>d1_title_chunk_3\<close>; mongo produces
  \<^verbatim>\<open>["a","a b","b c","c d","d e"]\<close> with chunk ids \<^verbatim>\<open>title_chunk_1\<close> to
  \<^verbatim>\<open>title_chunk_5\<close> under \<^verbatim>\<open>doc_id\<close> \<^verbatim>\<open>d1\<close>; pgvector (given an embedding
  model) produces \<^verbatim>\<open>["a b","b c","c d","d e"]\<close>, keyed \<open>(d1, title, 0)\<close> to
  \<open>(d1, title, 3)\<close>.
\<close>

theorem scenario_chunks:
  "(\<exists>cs. chroma_ingest_document (PDict [(''id'', PStr ''d1''), (''title'', PStr ''a b c d e'')])
            [''title''] 3 1 '' '' = Inr cs
        \<and> map ch_text cs = [''a b'', ''c'', ''d'', ''e'']
        \<and> map ch_id cs = [''d1_title_chunk_0'', ''d1_title_chunk_1'', ''d1_title_chunk_2'',
                           ''d1_title_chunk_3''])
   \<and> (\<exists>ops. mongo_ingest_document (PDict [(''id'', PStr ''d1''), (''title'', PStr ''a b c d e'')])
            [''title''] 3 1 '' '' em = Inr ops
        \<and> map mg_text ops = [''a'', ''a b'', ''b c'', ''c d'', ''d e'']
        \<and> map mg_chunk_id ops = [''title_chunk_1'', ''title_chunk_2'', ''title_chunk_3'',
                                  ''title_chunk_4'', ''title_chunk_5'']
        \<and> map mg_doc_id ops = replicate 5 (PStr ''d1''))
   \<and> (\<exists>rows. pgvector_ingest_document 4 rt
              (PDict [(''id'', PStr ''d1''), (''title'', PStr ''a b c d e'')])
              [''title''] 3 1 '' '' (Some em') = Some (Inr rows)
        \<and> map pg_chunk_text rows = [''a b'', ''b c'', ''c d'', ''d e'']
        \<and> map (\<lambda>r. (pg_doc_id r, pg_field_name r, pg_chunk_index r)) rows =
            [(PStr ''d1'', ''title'', 0), (PStr ''d1'', ''title'', 1),
             (PStr ''d1'', ''title'', 2), (PStr ''d1'', ''title'', 3)])"
proof (intro conjI)
  show "\<exists>cs. chroma_ingest_document (PDict [(''id'', PStr ''d1''), (''title'', PStr ''a b c d e'')])
            [''title''] 3 1 '' '' = Inr cs
        \<and> map ch_text cs = [''a b'', ''c'', ''d'', ''e'']
        \<and> map ch_id cs = [''d1_title_chunk_0'', ''d1_title_chunk_1'', ''d1_title_chunk_2'',
                           ''d1_title_chunk_3'']"
    by (simp add: chroma_scenario create_chunk_sel str_nat_digit)
  show "\<exists>ops. mongo_ingest_document (PDict [(''id'', PStr ''d1''), (''title'', PStr ''a b c d e'')])
            [''title''] 3 1 '' '' em = Inr ops
        \<and> map mg_text ops = [''a'', ''a b'', ''b c'', ''c d'', ''d e'']
        \<and> map mg_chunk_id ops = [''title_chunk_1'', ''title_chunk_2'', ''title_chunk_3'',
                                  ''title_chunk_4'', ''title_chunk_5'']
        \<and> map mg_doc_id ops = replicate 5 (PStr ''d1'')"
    by (simp add: mongo_scenario mg_field_ops_sel upt5 replicate5 str_int_def str_nat_digit)
  show "\<exists>rows. pgvector_ingest_document 4 rt
              (PDict [(''id'', PStr ''d1''), (''title'', PStr ''a b c d e'')])
              [''title''] 3 1 '' '' (Some em') = Some (Inr rows)
        \<and> map pg_chunk_text rows = [''a b'', ''b c'', ''c d'', ''d e'']
        \<and> map (\<lambda>r. (pg_doc_id r, pg_field_name r, pg_chunk_index r)) rows =
            [(PStr ''d1'', ''title'', 0), (PStr ''d1'', ''title'', 1),
             (PStr ''d1'', ''title'', 2), (PStr ''d1'', ''title'', 3)]"
    by (simp add: pg_scenario pg_rows_def enumerate_eq_zip upt_rec [of 0] upt_rec [of 1]
        upt_rec [of 2] upt_rec [of 3] upt_rec [of "Suc 0"])
qed

subsection \<open>Chunk indices and total counts (C4)\<close>

lemma upt_shift_Cons: "k # [Suc k..<Suc k + n] = [k..<k + Suc n]"
  by (simp add: upt_conv_Cons)

lemma chroma_loop_first:
  "chroma_words_loop did fp sep cs co (w # ws) [] cl k =
   chroma_words_loop did fp sep cs co ws [w] (cl + int (length w)) k"
  by simp

lemma chroma_loop_keep:
  "cur \<noteq> [] \<Longrightarrow> \<not> cl + (int (length w) + int (length sep)) > cs \<Longrightarrow>
   chroma_words_loop did fp sep cs co (w # ws) cur cl k =
   chroma_words_loop did fp sep cs co ws (cur @ [w]) (cl + (int (length w) + int (length sep))) k"
  by simp

lemma chroma_loop_emit:
  "cur \<noteq> [] \<Longrightarrow> cl + (int (length w) + int (length sep)) > cs \<Longrightarrow>
   chroma_words_loop did fp sep cs co (w # ws) cur cl k =
   create_chunk did (py_join sep cur) fp k
   # chroma_words_loop did fp sep cs co ws (fst (chroma_overlap sep co (rev cur) [] 0) @ [w])
       (snd (chroma_overlap sep co (rev cur) [] 0) + (int (length w) + int (length sep))) (Suc k)"
  by (simp add: Let_def)

lemma chroma_words_loop_index:
  "map ch_chunk_index (chroma_words_loop did fp sep cs co words cur cl k) =
   [k..<k + length (chroma_words_loop did fp sep cs co words cur cl k)]"
proof (induction words arbitrary: cur cl k)
  case Nil
  then show ?case by (simp add: create_chunk_sel)
next
  case (Cons w ws)
  consider (first) "cur = []"
    | (keep) "cur \<noteq> []" "\<not> cl + (int (length w) + int (length sep)) > cs"
    | (emit) "cur \<noteq> []" "cl + (int (length w) + int (length sep)) > cs"
    by blast
  then show ?case
  proof cases
    case first
    show ?thesis unfolding first chroma_loop_first by (rule Cons.IH)
  next
    case keep
    show ?thesis unfolding chroma_loop_keep [OF keep] by (rule Cons.IH)
  next
    case emit
    define rest where
      "rest = chroma_words_loop did fp sep cs co ws (fst (chroma_overlap sep co (rev cur) [] 0) @ [w])
       (snd (chroma_overlap sep co (rev cur) [] 0) + (int (length w) + int (length sep))) (Suc k)"
    have "map ch_chunk_index rest = [Suc k..<Suc k + length rest]"
      unfolding rest_def by (rule Cons.IH)
    then have "map ch_chunk_index (create_chunk did (py_join sep cur) fp k # rest)
      = k # [Suc k..<Suc k + length rest]"
      by (simp add: create_chunk_sel)
    also have "\<dots> = [k..<k + length (create_chunk did (py_join sep cur) fp k # rest)]"
      using upt_shift_Cons [of k "length rest"] by simp
    finally show ?thesis unfolding chroma_loop_emit [OF emit] rest_def .
  qed
qed

lemma chroma_words_loop_field:
  "c \<in> set (chroma_words_loop did fp sep cs co words cur cl k) \<Longrightarrow> ch_field c = fp"
proof (induction words arbitrary: cur cl k)
  case Nil
  then show ?case by (cases "cur = []") (simp_all add: create_chunk_sel)
next
  case (Cons w ws)
  consider (first) "cur = []"
    | (keep) "cur \<noteq> []" "\<not> cl + (int (length w) + int (length sep)) > cs"
    | (emit) "cur \<noteq> []" "cl + (int (length w) + int (length sep)) > cs"
    by blast
  then show ?case
  proof cases
    case first
    show ?thesis using Cons.prems unfolding first chroma_loop_first by (rule Cons.IH)
  next
    case keep
    show ?thesis using Cons.prems unfolding chroma_loop_keep [OF keep] by (rule Cons.IH)
  next
    case emit
    define rest where
      "rest = chroma_words_loop did fp sep cs co ws (fst (chroma_overlap sep co (rev cur) [] 0) @ [w])
       (snd (chroma_overlap sep co (rev cur) [] 0) + (int (length w) + int (length sep))) (Suc k)"
    have "c = create_chunk did (py_join sep cur) fp k \<or> c \<in> set rest"
      using Cons.prems unfolding chroma_loop_emit [OF emit] rest_def by simp
    then show ?thesis
    proof
      assume "c = create_chunk did (py_join sep cur) fp k"
      then show ?thesis by (simp add: create_chunk_sel)
    next
      assume "c \<in> set rest"
      then show ?thesis unfolding rest_def by (rule Cons.IH)
    qed
  qed
qed

lemma mg_field_ops_length: "length (mg_field_ops em d f cs co chunks) = length chunks"
  by (simp add: mg_field_ops_def)

lemma mg_fields_loop_Inr:
  "mg_fields_loop em document d cs co sep fs acc = Inr ops \<Longrightarrow>
   ops = acc @ concat (map (mg_ops_of em document d cs co sep) fs)"
proof (induction fs arbitrary: acc)
  case Nil
  then show ?case by simp
next
  case (Cons f fs)
  let ?content = "extract_field_content document (py_split ''.'' f)"
  show ?case
  proof (cases "?content = []")
    case True
    then have "mg_fields_loop em document d cs co sep fs acc = Inr ops"
      using Cons.prems by simp
    then have "ops = acc @ concat (map (mg_ops_of em document d cs co sep) fs)"
      by (rule Cons.IH)
    moreover have "mg_ops_of em document d cs co sep f = []"
      using True by (simp add: mg_ops_of_def)
    ultimately show ?thesis by simp
  next
    case False
    show ?thesis
    proof (cases "chunk_text sep cs co ?content")
      case (Inl e)
      then show ?thesis using Cons.prems False by simp
    next
      case (Inr chunks)
      then have "mg_fields_loop em document d cs co sep fs
                   (acc @ mg_field_ops em d f cs co chunks) = Inr ops"
        using Cons.prems False by simp
      then have "ops = (acc @ mg_field_ops em d f cs co chunks)
                       @ concat (map (mg_ops_of em document d cs co sep) fs)"
        by (rule Cons.IH)
      moreover have "mg_ops_of em document d cs co sep f = mg_field_ops em d f cs co chunks"
        using False Inr by (simp add: mg_ops_of_def)
      ultimately show ?thesis by simp
    qed
  qed
qed

lemma mg_ops_of_field:
  assumes "op \<in> set (mg_ops_of em document d cs co sep f)"
  shows "mg_field op = f"
proof (cases "extract_field_content document (py_split ''.'' f) = []")
  case True
  then show ?thesis using assms by (simp add: mg_ops_of_def)
next
  case False
  define chunks where
    "chunks = projr (chunk_text sep cs co (extract_field_content document (py_split ''.'' f)))"
  have "op \<in> set (mg_field_ops em d f cs co chunks)"
    using assms False by (simp add: mg_ops_of_def chunks_def)
  then have "mg_field op \<in> set (map mg_field (mg_field_ops em d f cs co chunks))"
    by (simp only: set_map) (rule imageI)
  then have "mg_field op \<in> set (replicate (length chunks) f)"
    by (simp only: mg_field_ops_sel)
  then show ?thesis by (simp split: if_splits)
qed

lemma mg_ops_of_index:
  "map mg_chunk_index (mg_ops_of em document d cs co sep f) =
   map (\<lambda>i. int i + 1) [0..<length (mg_ops_of em document d cs co sep f)]"
proof (cases "extract_field_content document (py_split ''.'' f) = []")
  case True
  then show ?thesis by (simp add: mg_ops_of_def)
next
  case False
  have len: "length (mg_field_ops em d f cs co chunks) = length chunks" for chunks
    by (simp add: mg_field_ops_def)
  show ?thesis using False by (simp add: mg_ops_of_def mg_field_ops_sel len)
qed

lemma mg_ops_of_total:
  "map mg_total_chunks (mg_ops_of em document d cs co sep f) =
   replicate (length (mg_ops_of em document d cs co sep f))
     (length (mg_ops_of em document d cs co sep f))"
proof (cases "extract_field_content document (py_split ''.'' f) = []")
  case True
  then show ?thesis by (simp add: mg_ops_of_def)
next
  case False
  have len: "length (mg_field_ops em d f cs co chunks) = length chunks" for chunks
    by (simp add: mg_field_ops_def)
  show ?thesis using False by (simp add: mg_ops_of_def mg_field_ops_sel len)
qed

lemma chroma_pairs_loop_Inr:
  "chroma_pairs_loop did sep cs co pairs = Inr chunks \<Longrightarrow>
   chunks = concat (map (\<lambda>ft. chroma_words_loop did (fst ft) sep cs co (py_split sep (snd ft)) [] 0 0) pairs)"
proof (induction pairs arbitrary: chunks)
  case Nil
  then show ?case by simp
next
  case (Cons ft fts)
  from Cons.prems have sep: "sep \<noteq> []" by (auto split: if_splits)
  then obtain rest where rest: "chroma_pairs_loop did sep cs co fts = Inr rest"
    and chunks: "chunks = chroma_words_loop did (fst ft) sep cs co (py_split sep (snd ft)) [] 0 0 @ rest"
    using Cons.prems by (auto split: sum.splits)
  show ?case using Cons.IH [OF rest] chunks by simp
qed

lemma lc_documents_index:
  "map lc_chunk_index (lc_documents d f texts) = [1..<Suc (length texts)]"
proof -
  have "map lc_chunk_index (lc_documents d f texts) = map Suc [0..<0 + length texts]"
    using map_fst_enum [of Suc 0 texts] by (simp add: lc_documents_def o_def)
  also have "\<dots> = [1..<Suc (length texts)]"
    using map_Suc_upt [of 0 "length texts"] by simp
  finally show ?thesis .
qed

lemma map_all_const:
  "(\<And>x. x \<in> set xs \<Longrightarrow> f x = c) \<Longrightarrow> map f xs = replicate (length xs) c"
  by (induction xs) simp_all

lemma list_all2_map_same:
  "(\<And>x. x \<in> set xs \<Longrightarrow> P (f x) (g x)) \<Longrightarrow> list_all2 P (map f xs) (map g xs)"
  by (induction xs) simp_all

lemma upt_from_one: "map (\<lambda>i. int i + 1) [0..<n] = map int [1..<Suc n]"
  by (induction n) simp_all

lemma mg_ops_of_group: "mg_group f (mg_ops_of em document d cs co sep f)"
proof -
  let ?g = "mg_ops_of em document d cs co sep f"
  have "map mg_field ?g = replicate (length ?g) f"
    by (rule map_all_const) (rule mg_ops_of_field)
  moreover have "map (\<lambda>i. int i + 1) [0..<length ?g] = map int [1..<Suc (length ?g)]"
    by (rule upt_from_one)
  ultimately show ?thesis
    by (simp add: mg_group_def mg_ops_of_index mg_ops_of_total)
qed

lemma mongo_groups:
  assumes "mongo_ingest_document (PDict kvs) fs cs co sep em = Inr ops"
  shows "\<exists>groups. ops = concat groups \<and> list_all2 mg_group fs groups"
proof -
  obtain d where loop: "mg_fields_loop em (PDict kvs) d cs co sep fs [] = Inr ops"
    using assms by (simp add: mongo_ingest_document_def)
  have ops: "ops = concat (map (mg_ops_of em (PDict kvs) d cs co sep) fs)"
    using mg_fields_loop_Inr [OF loop] by simp
  have "list_all2 mg_group (map (\<lambda>f. f) fs) (map (mg_ops_of em (PDict kvs) d cs co sep) fs)"
    by (rule list_all2_map_same) (rule mg_ops_of_group)
  then show ?thesis using ops by auto
qed

lemma chroma_words_loop_group:
  "ch_group fp (chroma_words_loop did fp sep cs co words [] 0 0)"
proof -
  let ?g = "chroma_words_loop did fp sep cs co words [] 0 0"
  have "map ch_field ?g = replicate (length ?g) fp"
    by (rule map_all_const) (rule chroma_words_loop_field)
  then show ?thesis
    using chroma_words_loop_index [of did fp sep cs co words "[]" 0 0]
    by (simp add: ch_group_def)
qed

lemma chroma_groups:
  assumes "chroma_ingest_document document fs cs co sep = Inr chunks"
  shows "\<exists>groups. chunks = concat groups
           \<and> list_all2 ch_group (map fst (chroma_resolved sep document fs)) groups"
proof -
  obtain did where loop: "chroma_pairs_loop did sep cs co (chroma_resolved sep document fs) = Inr chunks"
    using assms unfolding chroma_ingest_document_def chroma_resolved_def
    by (auto split: pyval.splits option.splits)
  define per where
    "per = (\<lambda>ft. chroma_words_loop did (fst ft) sep cs co (py_split sep (snd ft)) [] 0 0)"
  have chunks: "chunks = concat (map per (chroma_resolved sep document fs))"
    using chroma_pairs_loop_Inr [OF loop] by (simp add: per_def)
  have "list_all2 ch_group (map fst (chroma_resolved sep document fs))
          (map per (chroma_resolved sep document fs))"
    by (rule list_all2_map_same) (simp add: per_def chroma_words_loop_group)
  then show ?thesis using chunks by auto
qed

lemma lc_documents_group: "lc_group f (lc_documents d f texts)"
proof -
  have "map lc_field (lc_documents d f texts) = replicate (length texts) f"
    by (simp add: lc_documents_def o_def map_const_enum)
  moreover have "length (lc_documents d f texts) = length texts"
    by (simp add: lc_documents_def)
  ultimately show ?thesis by (simp add: lc_group_def lc_documents_index)
qed

lemma lc_values_loop_groups:
  "lc_values_loop split_text d f cs co sep vs = Inr docs \<Longrightarrow>
   \<exists>groups. docs = concat groups
     \<and> list_all2 lc_group (map (\<lambda>v. f) (filter (\<lambda>v. v \<noteq> []) vs)) groups"
proof (induction vs arbitrary: docs)
  case Nil
  then show ?case by simp
next
  case (Cons v vs)
  show ?case
  proof (cases "v = []")
    case True
    then show ?thesis using Cons by simp
  next
    case False
    then obtain texts others where
      t: "split_text cs co sep v = Inr texts"
      and o: "lc_values_loop split_text d f cs co sep vs = Inr others"
      and docs: "docs = lc_documents d f texts @ others"
      using Cons.prems by (auto split: sum.splits)
    from Cons.IH [OF o] obtain groups where
      g: "others = concat groups"
         "list_all2 lc_group (map (\<lambda>v. f) (filter (\<lambda>v. v \<noteq> []) vs)) groups"
      by blast
    have "docs = concat (lc_documents d f texts # groups)" using docs g(1) by simp
    moreover have "list_all2 lc_group (map (\<lambda>v. f) (filter (\<lambda>v. v \<noteq> []) (v # vs)))
                     (lc_documents d f texts # groups)"
      using False g(2) by (simp add: lc_documents_group)
    ultimately show ?thesis by blast
  qed
qed

lemma lc_resolved_Cons:
  "map fst (lc_resolved document (p # fs)) =
   map (\<lambda>v. p) (filter (\<lambda>v. v \<noteq> []) (lc_extract_field_value document (py_split ''.'' p) []))
   @ map fst (lc_resolved document fs)"
  by (simp add: lc_resolved_def o_def)

lemma lc_fields_loop_groups:
  "lc_fields_loop split_text d document cs co sep fs = Inr docs \<Longrightarrow>
   \<exists>groups. docs = concat groups
     \<and> list_all2 lc_group (map fst (lc_resolved document fs)) groups"
proof (induction fs arbitrary: docs)
  case Nil
  then show ?case by (simp add: lc_resolved_def)
next
  case (Cons p fs)
  obtain first others where
    f: "lc_values_loop split_text d p cs co sep
          (lc_extract_field_value document (py_split ''.'' p) []) = Inr first"
    and o: "lc_fields_loop split_text d document cs co sep fs = Inr others"
    and docs: "docs = first @ others"
    using Cons.prems by (auto split: sum.splits)
  from lc_values_loop_groups [OF f] obtain g1 where
    g1: "first = concat g1"
        "list_all2 lc_group
           (map (\<lambda>v. p) (filter (\<lambda>v. v \<noteq> []) (lc_extract_field_value document (py_split ''.'' p) [])))
           g1"
    by blast
  from Cons.IH [OF o] obtain g2 where
    g2: "others = concat g2" "list_all2 lc_group (map fst (lc_resolved document fs)) g2"
    by blast
  have "docs = concat (g1 @ g2)" using docs g1(1) g2(1) by simp
  moreover have "list_all2 lc_group (map fst (lc_resolved document (p # fs))) (g1 @ g2)"
    unfolding lc_resolved_Cons using g1(2) g2(2) by (rule list_all2_appendI)
  ultimately show ?case by blast
qed

lemma langchain_groups:
  assumes "langchain_ingest_document split_text document fs cs co sep = Inr docs"
  shows "\<exists>groups. docs = concat groups
           \<and> list_all2 lc_group (map fst (lc_resolved document fs)) groups"
proof -
  obtain d where "lc_fields_loop split_text d document cs co sep fs = Inr docs"
    using assms unfolding langchain_ingest_document_def by (auto split: pyval.splits)
  then show ?thesis by (rule lc_fields_loop_groups)
qed

text \<open>
  C4 amended: the records of a call are the concatenation, in order, of one
  group per field, and within each group the chunk indices are contiguous
  with no gaps, starting at 1 in mongo and langchain (\<^verbatim>\<open>i + 1\<close>) and at 0
  in chroma; in mongo every record of a group carries the size of the group
  as \<^verbatim>\<open>total_chunks\<close>. A field is an entry of \<^verbatim>\<open>searchable_fields\<close> in mongo,
  a resolved \<open>(path, text)\<close> pair in chroma, a non-empty resolved value in
  langchain; every record of a group names its field (the entry, the resolved
  path, the pattern of the value).
\<close>

theorem chunk_indices_per_field:
  assumes "mongo_ingest_document (PDict kvs) fs cs co sep em = Inr ops"
    and "chroma_ingest_document document' fs' cs' co' sep' = Inr chunks"
    and "langchain_ingest_document split_text document'' fs'' cs'' co'' sep'' = Inr docs"
  shows "(\<exists>groups. ops = concat groups \<and> list_all2 mg_group fs groups)
       \<and> (\<exists>groups. chunks = concat groups
             \<and> list_all2 ch_group (map fst (chroma_resolved sep' document' fs')) groups)
       \<and> (\<exists>groups. docs = concat groups
             \<and> list_all2 lc_group (map fst (lc_resolved document'' fs'')) groups)"
  using mongo_groups [OF assms(1)] chroma_groups [OF assms(2)] langchain_groups [OF assms(3)]
  by blast

lemma two_fields_mongo:
  "mongo_ingest_document
     (PDict [(''id'', PStr ''d1''), (''title'', PStr ''a b c d e''), (''body'', PStr ''x y'')])
     [''title'', ''body'', ''title''] 3 1 '' '' em =
   Inr (mg_field_ops em (PStr ''d1'') ''title'' 3 1 [''a'', ''a b'', ''b c'', ''c d'', ''d e'']
        @ mg_field_ops em (PStr ''d1'') ''body'' 3 1 [''x'', ''x y'']
        @ mg_field_ops em (PStr ''d1'') ''title'' 3 1 [''a'', ''a b'', ''b c'', ''c d'', ''d e''])"
  by (simp add: mongo_ingest_document_def dict_get_def chunk_text_def py_split_def
      mg_overlapped_def mg_overlap_chunk_def py_slice_def slice_bound_def)

lemma two_fields_chroma:
  "chroma_ingest_document
     (PDict [(''id'', PStr ''d1''), (''title'', PStr ''a b c d e''), (''body'', PStr ''x y'')])
     [''title'', ''body''] 3 1 '' '' =
   Inr [create_chunk (PStr ''d1'') ''a b'' ''title'' 0, create_chunk (PStr ''d1'') ''c'' ''title'' 1,
        create_chunk (PStr ''d1'') ''d'' ''title'' 2, create_chunk (PStr ''d1'') ''e'' ''title'' 3,
        create_chunk (PStr ''d1'') ''x y'' ''body'' 0]"
  by (simp add: chroma_ingest_document_def py_split_def eval_nat_numeral)

lemma two_fields_langchain:
  "langchain_ingest_document checked_splitter
     (PDict [(''id'', PStr ''d1''), (''title'', PStr ''a b c d e''), (''body'', PStr ''x y'')])
     [''title'', ''body''] 3 1 '' '' =
   Inr (lc_documents (PStr ''d1'') ''title'' [''a'', ''b'', ''c'', ''d'', ''e'']
        @ lc_documents (PStr ''d1'') ''body'' [''x'', ''y''])"
  by (simp add: langchain_ingest_document_def dict_get_def checked_splitter_def py_split_def)

lemma two_fields_resolved:
  "map fst (chroma_resolved '' ''
     (PDict [(''id'', PStr ''d1''), (''title'', PStr ''a b c d e''), (''body'', PStr ''x y'')])
     [''title'', ''body'']) = [''title'', ''body'']"
  "map fst (lc_resolved
     (PDict [(''id'', PStr ''d1''), (''title'', PStr ''a b c d e''), (''body'', PStr ''x y'')])
     [''title'', ''body'']) = [''title'', ''body'']"
  by code_simp+

text \<open>
  An instance with several fields, one of them listed twice for mongo: the
  document \<^verbatim>\<open>{"id": "d1", "title": "a b c d e", "body": "x y"}\<close> with chunk
  size 3 and overlap 1.
\<close>

theorem chunk_indices_per_field_witness:
  "mongo_ingest_document
     (PDict [(''id'', PStr ''d1''), (''title'', PStr ''a b c d e''), (''body'', PStr ''x y'')])
     [''title'', ''body'', ''title''] 3 1 '' '' (None :: (string \<Rightarrow> nat) option)
   = Inr (mg_field_ops None (PStr ''d1'') ''title'' 3 1 [''a'', ''a b'', ''b c'', ''c d'', ''d e'']
          @ mg_field_ops None (PStr ''d1'') ''body'' 3 1 [''x'', ''x y'']
          @ mg_field_ops None (PStr ''d1'') ''title'' 3 1 [''a'', ''a b'', ''b c'', ''c d'', ''d e''])
   \<and> chroma_ingest_document
       (PDict [(''id'', PStr ''d1''), (''title'', PStr ''a b c d e''), (''body'', PStr ''x y'')])
       [''title'', ''body''] 3 1 '' ''
     = Inr [create_chunk (PStr ''d1'') ''a b'' ''title'' 0, create_chunk (PStr ''d1'') ''c'' ''title'' 1,
            create_chunk (PStr ''d1'') ''d'' ''title'' 2, create_chunk (PStr ''d1'') ''e'' ''title'' 3,
            create_chunk (PStr ''d1'') ''x y'' ''body'' 0]
   \<and> langchain_ingest_document checked_splitter
       (PDict [(''id'', PStr ''d1''), (''title'', PStr ''a b c d e''), (''body'', PStr ''x y'')])
       [''title'', ''body''] 3 1 '' ''
     = Inr (lc_documents (PStr ''d1'') ''title'' [''a'', ''b'', ''c'', ''d'', ''e'']
            @ lc_documents (PStr ''d1'') ''body'' [''x'', ''y''])
   \<and> (\<exists>groups.
         mg_field_ops (None :: (string \<Rightarrow> nat) option) (PStr ''d1'') ''title'' 3 1
           [''a'', ''a b'', ''b c'', ''c d'', ''d e'']
         @ mg_field_ops None (PStr ''d1'') ''body'' 3 1 [''x'', ''x y'']
         @ mg_field_ops None (PStr ''d1'') ''title'' 3 1 [''a'', ''a b'', ''b c'', ''c d'', ''d e'']
         = concat groups
         \<and> list_all2 mg_group [''title'', ''body'', ''title''] groups)
   \<and> (\<exists>groups.
         [create_chunk (PStr ''d1'') ''a b'' ''title'' 0, create_chunk (PStr ''d1'') ''c'' ''title'' 1,
          create_chunk (PStr ''d1'') ''d'' ''title'' 2, create_chunk (PStr ''d1'') ''e'' ''title'' 3,
          create_chunk (PStr ''d1'') ''x y'' ''body'' 0]
         = concat groups
         \<and> list_all2 ch_group [''title'', ''body''] groups)
   \<and> (\<exists>groups.
         lc_documents (PStr ''d1'') ''title'' [''a'', ''b'', ''c'', ''d'', ''e'']
         @ lc_documents (PStr ''d1'') ''body'' [''x'', ''y'']
         = concat groups
         \<and> list_all2 lc_group [''title'', ''body''] groups)"
proof -
  note t = chunk_indices_per_field
    [OF two_fields_mongo [where em = "None :: (string \<Rightarrow> nat) option"]
        two_fields_chroma two_fields_langchain]
  show ?thesis
    using t two_fields_mongo [where em = "None :: (string \<Rightarrow> nat) option"]
      two_fields_chroma two_fields_langchain
    unfolding two_fields_resolved by blast
qed

text \<open>
  C4 as stated (indices start at 0) fails in mongo: the five chunks of the
  scenario are numbered 1 to 5.
\<close>

theorem chunk_indices_counterexample:
  "\<nexists>ops. mongo_ingest_document (PDict [(''id'', PStr ''d1''), (''title'', PStr ''a b c d e'')])
            [''title''] 3 1 '' '' None = Inr ops
         \<and> map mg_chunk_index ops = map int [0..<length ops]"
  by (simp add: mongo_scenario mg_field_ops_sel mg_field_ops_length upt5)

subsection \<open>The caller's document (C5)\<close>

lemma metadata_author_parts:
  "py_split ''.'' ''metadata.author'' = [''metadata'', ''author'']"
  by code_simp

text \<open>
  The constructor may raise, as for a model that the package does not
  support. Whenever it raises on the text found, so does the call: the
  assignment is reached only after the constructor has returned.
\<close>

lemma capybaradb_constructor_raises:
  assumes "EmbText ''Tester'' embedding_model 512 50 ['' ''] False True = Inl e"
  shows "capybaradb_ingest_document EmbText
           [HDictObj [(''id'', HStr ''d1''), (''metadata'', HRef 1)],
            HDictObj [(''author'', HStr ''Tester'')]]
           (HRef 0) [''metadata.author''] 512 50 '' '' embedding_model
         = Inl e"
  using assms
  by (simp add: capybaradb_ingest_document_def process_field_def metadata_author_parts
      h_is_list_def heap_get_def cb_contains_def cb_getitem_def)

text \<open>
  C5 (the call leaves the caller's document unchanged) fails in the capybaradb
  script for a nested path, with every embedding model that the \<^verbatim>\<open>EmbText\<close>
  constructor accepts. \<^verbatim>\<open>document.copy()\<close> copies the top-level
  \<^verbatim>\<open>dict\<close> only, so \<^verbatim>\<open>doc_copy["metadata"]\<close> is the caller's own nested
  \<^verbatim>\<open>dict\<close>, and \<^verbatim>\<open>current[part] = EmbText(...)\<close> writes into it. For
  \<^verbatim>\<open>{"id": "d1", "metadata": {"author": "Tester"}}\<close> (object 0, its nested
  \<^verbatim>\<open>dict\<close> object 1) and the field \<^verbatim>\<open>"metadata.author"\<close>, if the constructor
  returns an object for the text \<^verbatim>\<open>"Tester"\<close> then the call returns
  normally, the copy is object 2, and the caller's document, read through
  reference 0 before and after, has changed: its author is now that object.
\<close>

theorem capybaradb_writes_shared_nested_dict:
  assumes "EmbText ''Tester'' embedding_model 512 50 ['' ''] False True = Inr emb"
  shows "capybaradb_ingest_document EmbText
           [HDictObj [(''id'', HStr ''d1''), (''metadata'', HRef 1)],
            HDictObj [(''author'', HStr ''Tester'')]]
           (HRef 0) [''metadata.author''] 512 50 '' '' embedding_model
         = Inr ([HDictObj [(''id'', HStr ''d1''), (''metadata'', HRef 1)],
                 HDictObj [(''author'', HObj emb)],
                 HDictObj [(''id'', HStr ''d1''), (''metadata'', HRef 1)]],
                HRef 2)
       \<and> snapshot 3 [HDictObj [(''id'', HStr ''d1''), (''metadata'', HRef 1)],
                     HDictObj [(''author'', HStr ''Tester'')]] (HRef 0)
         = DDict [(''id'', DStr ''d1''), (''metadata'', DDict [(''author'', DStr ''Tester'')])]
       \<and> snapshot 3 [HDictObj [(''id'', HStr ''d1''), (''metadata'', HRef 1)],
                     HDictObj [(''author'', HObj emb)],
                     HDictObj [(''id'', HStr ''d1''), (''metadata'', HRef 1)]] (HRef 0)
         = DDict [(''id'', DStr ''d1''), (''metadata'', DDict [(''author'', DObj emb)])]"
  using assms
  by (simp add: capybaradb_ingest_document_def process_field_def metadata_author_parts
      h_is_list_def heap_get_def cb_contains_def cb_getitem_def cb_setitem_def
      eval_nat_numeral)

text \<open>
  An instance: a constructor that rejects a missing model and blank text and
  otherwise keeps its arguments, called with the model name
  \<^verbatim>\<open>"text-embedding-3-small"\<close>.
\<close>

theorem capybaradb_writes_shared_nested_dict_witness:
  "checked_emb_text ''Tester'' (Some ''text-embedding-3-small'') 512 50 ['' ''] False True
     = Inr (''Tester'', ''text-embedding-3-small'', 512, 50, ['' ''])
   \<and> capybaradb_ingest_document checked_emb_text
         [HDictObj [(''id'', HStr ''d1''), (''metadata'', HRef 1)],
          HDictObj [(''author'', HStr ''Tester'')]]
         (HRef 0) [''metadata.author''] 512 50 '' '' (Some ''text-embedding-3-small'')
       = Inr ([HDictObj [(''id'', HStr ''d1''), (''metadata'', HRef 1)],
               HDictObj [(''author'',
                          HObj (''Tester'', ''text-embedding-3-small'', 512, 50, ['' '']))],
               HDictObj [(''id'', HStr ''d1''), (''metadata'', HRef 1)]],
              HRef 2)"
proof -
  have h: "checked_emb_text ''Tester'' (Some ''text-embedding-3-small'') 512 50 ['' ''] False True
     = Inr (''Tester'', ''text-embedding-3-small'', 512, 50, ['' ''])"
    by (simp add: checked_emb_text_def)
  show ?thesis
    by (intro conjI h
          capybaradb_writes_shared_nested_dict
            [where EmbText = checked_emb_text
               and embedding_model = "Some ''text-embedding-3-small''"
               and emb = "(''Tester'', ''text-embedding-3-small'', 512, 50, ['' ''])",
             OF h, THEN conjunct1])
qed

subsection \<open>The wildcard over a list of strings (C6)\<close>

lemma tags_parts: "py_split ''.'' ''tags.*'' = [''tags'', ''*'']"
  by code_simp

lemma tags_langchain:
  "lc_extract_field_value (PDict [(''tags'', PList [PStr ''x'', PStr ''y''])])
     (py_split ''.'' ''tags.*'') [] = [''x'', ''y'']"
  by code_simp

lemma tags_chroma:
  "chroma_extract_field_value separator (PDict [(''tags'', PList [PStr ''x'', PStr ''y''])])
     (py_split ''.'' ''tags.*'') [] = []"
  by (simp add: tags_parts)

lemma tags_mongo:
  "extract_field_content (PDict [(''tags'', PList [PStr ''x'', PStr ''y''])])
     (py_split ''.'' ''tags.*'')
   = [CHR ''['', CHR 0x27, CHR ''x'', CHR 0x27, CHR '','', CHR '' '',
      CHR 0x27, CHR ''y'', CHR 0x27, CHR '']'']"
  by code_simp

text \<open>
  C6 as stated (\<^verbatim>\<open>"tags.*"\<close> over \<^verbatim>\<open>{"tags":["x","y"]}\<close> resolves to two
  fields) fails in chroma, whose extractor returns nothing once the path is
  exhausted: the wildcard in last position resolves to no field at all.
\<close>

theorem wildcard_tags_counterexample:
  "length (chroma_extract_field_value '' '' (PDict [(''tags'', PList [PStr ''x'', PStr ''y''])])
     (py_split ''.'' ''tags.*'') []) \<noteq> 2"
  by (simp add: tags_chroma)

text \<open>
  C6 amended: on that input langchain's \<^verbatim>\<open>extract_field_value\<close> returns the
  two values \<^verbatim>\<open>"x"\<close> and \<^verbatim>\<open>"y"\<close> in element order (values only, no path);
  chroma's returns no field, whatever the separator; mongo's
  \<^verbatim>\<open>extract_field_content\<close> returns the one string \<^verbatim>\<open>['x', 'y']\<close>.
\<close>

theorem wildcard_tags:
  "lc_extract_field_value (PDict [(''tags'', PList [PStr ''x'', PStr ''y''])])
     (py_split ''.'' ''tags.*'') [] = [''x'', ''y'']
   \<and> chroma_extract_field_value separator (PDict [(''tags'', PList [PStr ''x'', PStr ''y''])])
     (py_split ''.'' ''tags.*'') [] = []
   \<and> extract_field_content (PDict [(''tags'', PList [PStr ''x'', PStr ''y''])])
     (py_split ''.'' ''tags.*'')
     = [CHR ''['', CHR 0x27, CHR ''x'', CHR 0x27, CHR '','', CHR '' '',
        CHR 0x27, CHR ''y'', CHR 0x27, CHR '']'']"
  using tags_langchain tags_chroma tags_mongo by simp

subsection \<open>Resolution misses (C7)\<close>

lemma chroma_miss:
  "path_miss v ps \<Longrightarrow> \<not> has_star_key v \<Longrightarrow> chroma_extract_field_value sep v ps cp = []"
proof (induction ps arbitrary: v cp)
  case Nil
  then show ?case by simp
next
  case (Cons p ps)
  show ?case
  proof (cases v)
    case (PList xs)
    show ?thesis
    proof (cases "p = ''*''")
      case True
      have "chroma_extract_field_value sep (snd ii) ps (cp @ ''['' @ str_nat (fst ii) @ '']'') = []"
        if "ii \<in> set (enumerate 0 xs)" for ii
      proof -
        have "(fst ii, snd ii) \<in> set (zip [0..<0 + length xs] xs)"
          using that by (simp add: enumerate_eq_zip)
        then have "snd ii \<in> set xs" by (rule set_zip_rightD)
        then have "path_miss (snd ii) ps" and "\<not> has_star_key (snd ii)"
          using Cons.prems PList True by (auto simp: list_all_iff list_ex_iff)
        then show ?thesis by (rule Cons.IH)
      qed
      then show ?thesis using PList True by simp
    next
      case False
      then show ?thesis using PList by simp
    qed
  next
    case (PDict kvs)
    have nostar: "map_of kvs ''*'' = None"
    proof (cases "map_of kvs ''*''")
      case None then show ?thesis .
    next
      case (Some w)
      then have "(''*'', w) \<in> set kvs" by (rule map_of_SomeD)
      then have "has_star_key v"
        using PDict by (auto simp: list_ex_iff intro!: bexI [of _ "(''*'', w)"])
      then show ?thesis using Cons.prems by simp
    qed
    show ?thesis
    proof (cases "map_of kvs p")
      case None
      then show ?thesis using PDict by simp
    next
      case (Some w)
      then have pne: "p \<noteq> ''*''" using nostar by auto
      then have miss: "path_miss w ps" using Cons.prems PDict Some by simp
      then have "ps \<noteq> []" by auto
      moreover have "(p, w) \<in> set kvs" using Some by (rule map_of_SomeD)
      then have "\<not> has_star_key w" using Cons.prems(2) PDict by (auto simp: list_ex_iff)
      then have "chroma_extract_field_value sep w ps cp' = []" for cp'
        using miss by (intro Cons.IH)
      ultimately show ?thesis using PDict Some pne by simp
    qed
  qed simp_all
qed


lemma extract_falsy: "\<not> truthy v \<Longrightarrow> extract_field_content v ps = []"
  by (cases ps) simp_all

lemma mongo_absent:
  "key_absent v ps \<Longrightarrow> ''*'' \<notin> set ps \<Longrightarrow> extract_field_content v ps = []"
proof (induction ps arbitrary: v)
  case Nil
  then show ?case by simp
next
  case (Cons p ps)
  then obtain kvs where v: "v = PDict kvs" by (cases v) simp_all
  have p: "p \<noteq> ''*''" using Cons.prems(2) by auto
  show ?case
  proof (cases "truthy v")
    case False
    then show ?thesis by (rule extract_falsy)
  next
    case True
    show ?thesis
    proof (cases "map_of kvs p")
      case None
      then have "extract_field_content v (p # ps) = extract_field_content (PStr []) ps"
        using v p True by (simp add: dict_get_def)
      then show ?thesis by (simp add: extract_falsy)
    next
      case (Some w)
      then have "key_absent w ps" using Cons.prems(1) v by simp
      then have "extract_field_content w ps = []"
        using Cons.prems(2) by (intro Cons.IH) auto
      then show ?thesis using v p True Some by (simp add: dict_get_def)
    qed
  qed
qed

lemma mg_fields_loop_skip:
  "extract_field_content document (py_split ''.'' p) = [] \<Longrightarrow>
   mg_fields_loop em document d cs co sep (fs1 @ p # fs2) acc =
   mg_fields_loop em document d cs co sep (fs1 @ fs2) acc"
proof (induction fs1 arbitrary: acc)
  case Nil
  then show ?case by simp
next
  case (Cons f fs1)
  show ?case
  proof (cases "extract_field_content document (py_split ''.'' f) = []")
    case True
    then show ?thesis using Cons by simp
  next
    case False
    show ?thesis
    proof (cases "chunk_text sep cs co (extract_field_content document (py_split ''.'' f))")
      case (Inl e)
      then show ?thesis using False by simp
    next
      case (Inr chunks)
      then show ?thesis using False Cons by simp
    qed
  qed
qed

text \<open>
  C7 amended. In chroma, for a document that has an \<^verbatim>\<open>"id"\<close> and no key
  named \<^verbatim>\<open>*\<close>, a path whose resolution misses yields no resolved field,
  adds nothing to the records of the other paths, and alone gives an empty
  result without error. In mongo the same holds for a path of literal
  segments one of which is absent from its mapping, as \<^verbatim>\<open>"missing.field"\<close>
  is over a document with no \<^verbatim>\<open>"missing"\<close> key.
\<close>

theorem resolution_miss_contributes_nothing:
  assumes "path_miss (PDict kvs) (py_split ''.'' p)"
    and "\<not> has_star_key (PDict kvs)"
    and "map_of kvs ''id'' = Some d"
    and "key_absent (PDict kvs') (py_split ''.'' p')"
    and "''*'' \<notin> set (py_split ''.'' p')"
  shows "chroma_extract_field_value sep (PDict kvs) (py_split ''.'' p) [] = []
       \<and> chroma_ingest_document (PDict kvs) (before @ p # after) cs co sep
           = chroma_ingest_document (PDict kvs) (before @ after) cs co sep
       \<and> chroma_ingest_document (PDict kvs) [p] cs co sep = Inr []
       \<and> extract_field_content (PDict kvs') (py_split ''.'' p') = []
       \<and> mongo_ingest_document (PDict kvs') (before' @ p' # after') cs' co' sep' em
           = mongo_ingest_document (PDict kvs') (before' @ after') cs' co' sep' em
       \<and> mongo_ingest_document (PDict kvs') [p'] cs' co' sep' em = Inr []"
proof -
  have c: "chroma_extract_field_value sep (PDict kvs) (py_split ''.'' p) [] = []"
    using assms(1,2) by (rule chroma_miss)
  have m: "extract_field_content (PDict kvs') (py_split ''.'' p') = []"
    using assms(4,5) by (rule mongo_absent)
  have "chroma_ingest_document (PDict kvs) (before @ p # after) cs co sep
           = chroma_ingest_document (PDict kvs) (before @ after) cs co sep"
    using assms(3) by (simp add: chroma_ingest_document_def c)
  moreover have "chroma_ingest_document (PDict kvs) [p] cs co sep = Inr []"
    using assms(3) by (simp add: chroma_ingest_document_def c)
  moreover have "mongo_ingest_document (PDict kvs') (before' @ p' # after') cs' co' sep' em
           = mongo_ingest_document (PDict kvs') (before' @ after') cs' co' sep' em"
    using mg_fields_loop_skip [OF m] by (simp add: mongo_ingest_document_def)
  moreover have "mongo_ingest_document (PDict kvs') [p'] cs' co' sep' em = Inr []"
    using m by (simp add: mongo_ingest_document_def)
  ultimately show ?thesis using c m by simp
qed

lemma missing_parts: "py_split ''.'' ''missing.field'' = [''missing'', ''field'']"
  by code_simp

lemma mongo_wrong_shape:
  "mongo_ingest_document (PDict [(''id'', PStr ''d1''), (''missing'', PStr ''hello'')])
     [''missing.field''] 512 50 '' '' em
   = Inr (mg_field_ops em (PStr ''d1'') ''missing.field'' 512 50 [''hello''])"
  by (simp add: mongo_ingest_document_def dict_get_def chunk_text_def py_split_def)

text \<open>
  C7 as stated fails twice. In mongo a literal segment applied to a string is
  skipped: over \<^verbatim>\<open>{"id": "d1", "missing": "hello"}\<close> the path
  \<^verbatim>\<open>"missing.field"\<close> misses, yet the text \<^verbatim>\<open>hello\<close> is ingested. In chroma a
  document without \<^verbatim>\<open>"id"\<close> raises \<^verbatim>\<open>KeyError\<close> whatever the path.
\<close>

theorem resolution_miss_counterexample:
  "path_miss (PDict [(''id'', PStr ''d1''), (''missing'', PStr ''hello'')])
     (py_split ''.'' ''missing.field'')
   \<and> (\<exists>ops. mongo_ingest_document (PDict [(''id'', PStr ''d1''), (''missing'', PStr ''hello'')])
              [''missing.field''] 512 50 '' '' None = Inr ops
          \<and> map mg_text ops = [''hello''])
   \<and> path_miss (PDict [(''title'', PStr ''t'')]) (py_split ''.'' ''missing.field'')
   \<and> chroma_ingest_document (PDict [(''title'', PStr ''t'')]) [''missing.field''] 512 50 '' ''
       = Inl KeyError"
  by (simp add: mongo_wrong_shape missing_parts mg_field_ops_sel chroma_ingest_document_def)

theorem resolution_miss_contributes_nothing_witness:
  "path_miss (PDict [(''id'', PStr ''d1''), (''title'', PStr ''a b c d e'')])
     (py_split ''.'' ''missing.field'')
   \<and> key_absent (PDict [(''id'', PStr ''d1''), (''title'', PStr ''a b c d e'')])
     (py_split ''.'' ''missing.field'')
   \<and> chroma_ingest_document (PDict [(''id'', PStr ''d1''), (''title'', PStr ''a b c d e'')])
       [''missing.field''] 3 1 '' '' = Inr []
   \<and> chroma_ingest_document (PDict [(''id'', PStr ''d1''), (''title'', PStr ''a b c d e'')])
       [''missing.field'', ''title''] 3 1 '' ''
     = chroma_ingest_document (PDict [(''id'', PStr ''d1''), (''title'', PStr ''a b c d e'')])
       [''title''] 3 1 '' ''
   \<and> mongo_ingest_document (PDict [(''id'', PStr ''d1''), (''title'', PStr ''a b c d e'')])
       [''missing.field''] 3 1 '' '' (None :: (string \<Rightarrow> nat) option) = Inr []"
proof -
  let ?kvs = "[(''id'', PStr ''d1''), (''title'', PStr ''a b c d e'')]"
  have h1: "path_miss (PDict ?kvs) (py_split ''.'' ''missing.field'')"
    by (simp add: missing_parts)
  have h2: "\<not> has_star_key (PDict ?kvs)" by simp
  have h3: "map_of ?kvs ''id'' = Some (PStr ''d1'')" by simp
  have h4: "key_absent (PDict ?kvs) (py_split ''.'' ''missing.field'')"
    by (simp add: missing_parts)
  have h5: "''*'' \<notin> set (py_split ''.'' ''missing.field'')"
    by (simp add: missing_parts)
  show ?thesis
    using resolution_miss_contributes_nothing [OF h1 h2 h3 h4 h5,
        where before = "[]" and after = "[''title'']" and cs = 3 and co = 1 and sep = "'' ''"
          and before' = "[]" and after' = "[]" and cs' = 3 and co' = 1 and sep' = "'' ''"
          and em = "None :: (string \<Rightarrow> nat) option"]
      h1 h4
    by (simp add: mongo_ingest_document_def)
qed

subsection \<open>Overlap between consecutive chunks (C8)\<close>

lemma pack_first:
  "chroma_pack sep cs co (w # ws) [] cl = chroma_pack sep cs co ws [w] (cl + int (length w))"
  by simp

lemma pack_keep:
  "cur \<noteq> [] \<Longrightarrow> \<not> cl + (int (length w) + int (length sep)) > cs \<Longrightarrow>
   chroma_pack sep cs co (w # ws) cur cl =
   chroma_pack sep cs co ws (cur @ [w]) (cl + (int (length w) + int (length sep)))"
  by simp

lemma pack_emit:
  "cur \<noteq> [] \<Longrightarrow> cl + (int (length w) + int (length sep)) > cs \<Longrightarrow>
   chroma_pack sep cs co (w # ws) cur cl =
   cur # chroma_pack sep cs co ws (fst (chroma_overlap sep co (rev cur) [] 0) @ [w])
           (snd (chroma_overlap sep co (rev cur) [] 0) + (int (length w) + int (length sep)))"
  by (simp add: Let_def)

lemma chroma_texts:
  "map ch_text (chroma_words_loop did fp sep cs co words cur cl k) =
   map (py_join sep) (chroma_pack sep cs co words cur cl)"
proof (induction words arbitrary: cur cl k)
  case Nil
  then show ?case by (simp add: create_chunk_sel)
next
  case (Cons w ws)
  consider (first) "cur = []"
    | (keep) "cur \<noteq> []" "\<not> cl + (int (length w) + int (length sep)) > cs"
    | (emit) "cur \<noteq> []" "cl + (int (length w) + int (length sep)) > cs"
    by blast
  then show ?case
  proof cases
    case first
    show ?thesis unfolding first chroma_loop_first pack_first by (rule Cons.IH)
  next
    case keep
    show ?thesis unfolding chroma_loop_keep [OF keep] pack_keep [OF keep] by (rule Cons.IH)
  next
    case emit
    show ?thesis
      unfolding chroma_loop_emit [OF emit] pack_emit [OF emit]
      by (simp add: create_chunk_sel Cons.IH)
  qed
qed

lemma pack_head:
  "chroma_pack sep cs co words cur cl = t # ts \<Longrightarrow> prefix cur t"
proof (induction words arbitrary: cur cl)
  case Nil
  then show ?case by (auto split: if_splits)
next
  case (Cons w ws)
  consider (first) "cur = []"
    | (keep) "cur \<noteq> []" "\<not> cl + (int (length w) + int (length sep)) > cs"
    | (emit) "cur \<noteq> []" "cl + (int (length w) + int (length sep)) > cs"
    by blast
  then show ?case
  proof cases
    case first
    then show ?thesis by simp
  next
    case keep
    have "chroma_pack sep cs co ws (cur @ [w]) (cl + (int (length w) + int (length sep))) = t # ts"
      using Cons.prems unfolding pack_keep [OF keep] .
    then have "prefix (cur @ [w]) t" by (rule Cons.IH)
    then show ?thesis by (rule append_prefixD)
  next
    case emit
    have "cur = t" using Cons.prems unfolding pack_emit [OF emit] by simp
    then show ?thesis by simp
  qed
qed


lemma overlap_take:
  "\<exists>k. k \<le> length xs
     \<and> fst (chroma_overlap sep co xs ow ol) = rev (take k xs) @ ow
     \<and> snd (chroma_overlap sep co xs ow ol)
         = ol + sum_list (map (\<lambda>w. int (length w) + int (length sep)) (take k xs))
     \<and> (0 < k \<longrightarrow> snd (chroma_overlap sep co xs ow ol) \<le> co)"
proof (induction xs arbitrary: ow ol)
  case Nil
  then show ?case by simp
next
  case (Cons w ws)
  let ?wl = "int (length w) + int (length sep)"
  show ?case
  proof (cases "ol + ?wl > co")
    case True
    then have "chroma_overlap sep co (w # ws) ow ol = (ow, ol)" by simp
    then show ?thesis by (intro exI [of _ 0]) simp
  next
    case False
    then have step: "chroma_overlap sep co (w # ws) ow ol = chroma_overlap sep co ws (w # ow) (ol + ?wl)"
      by simp
    from Cons.IH [of "w # ow" "ol + ?wl"] obtain k where k: "k \<le> length ws"
      "fst (chroma_overlap sep co ws (w # ow) (ol + ?wl)) = rev (take k ws) @ w # ow"
      "snd (chroma_overlap sep co ws (w # ow) (ol + ?wl))
         = ol + ?wl + sum_list (map (\<lambda>w. int (length w) + int (length sep)) (take k ws))"
      "0 < k \<longrightarrow> snd (chroma_overlap sep co ws (w # ow) (ol + ?wl)) \<le> co"
      by blast
    have bound: "snd (chroma_overlap sep co ws (w # ow) (ol + ?wl)) \<le> co"
    proof (cases "0 < k")
      case True
      then show ?thesis using k(4) by simp
    next
      case False
      then show ?thesis using k(3) \<open>\<not> ol + ?wl > co\<close> by simp
    qed
    show ?thesis
      unfolding step
      by (intro exI [of _ "Suc k"]) (use k bound in simp)
  qed
qed

lemma length_join_sum:
  "ws \<noteq> [] \<Longrightarrow>
   int (length (py_join sep ws)) + int (length sep)
   = sum_list (map (\<lambda>w. int (length w) + int (length sep)) ws)"
proof (induction ws)
  case Nil
  then show ?case by simp
next
  case (Cons w ws)
  show ?case
  proof (cases "ws = []")
    case True
    then show ?thesis by simp
  next
    case False
    then have "int (length (py_join sep ws)) + int (length sep)
      = sum_list (map (\<lambda>w. int (length w) + int (length sep)) ws)"
      by (rule Cons.IH)
    then show ?thesis using False by (simp add: py_join_Cons)
  qed
qed

text \<open>
  The overlap loop of the chroma script computes the carried words: taking
  words from the end while the running cost fits yields the longest run of
  trailing words that fits.
\<close>

lemma overlap_cost_nonneg: "0 \<le> overlap_cost sep ws"
  by (induction ws) (simp_all add: overlap_cost_def)

lemma overlap_cost_Cons:
  "overlap_cost sep (w # ws) = int (length w) + int (length sep) + overlap_cost sep ws"
  by (simp add: overlap_cost_def)

lemma overlap_cost_rev: "overlap_cost sep (rev ws) = overlap_cost sep ws"
  by (simp add: overlap_cost_def rev_map [symmetric])

lemma last_Nil_map_Cons:
  "F \<noteq> [] \<Longrightarrow> last ([] # map ((#) w) F) = w # last ([] # F)"
  by (simp add: last_map)

lemma overlap_longest_prefix:
  "fst (chroma_overlap sep co xs ow ol)
   = rev (last ([] # filter (\<lambda>p. ol + overlap_cost sep p \<le> co) (prefixes xs))) @ ow"
proof (induction xs arbitrary: ow ol)
  case Nil
  then show ?case by simp
next
  case (Cons w ws)
  let ?wl = "int (length w) + int (length sep)"
  show ?case
  proof (cases "ol + ?wl > co")
    case True
    have "\<not> ol + overlap_cost sep (w # p) \<le> co" for p
      using True overlap_cost_nonneg [of sep p] by (simp add: overlap_cost_Cons)
    then have "filter (\<lambda>p. ol + overlap_cost sep p \<le> co) (map ((#) w) (prefixes ws)) = []"
      by (simp add: filter_empty_conv)
    then have "last ([] # filter (\<lambda>p. ol + overlap_cost sep p \<le> co) (prefixes (w # ws))) = []"
      by simp
    then show ?thesis using True by simp
  next
    case False
    let ?F = "filter (\<lambda>p. ol + ?wl + overlap_cost sep p \<le> co) (prefixes ws)"
    have ne: "?F \<noteq> []"
    proof
      assume e: "?F = []"
      have "[] \<in> set ?F" using False by (simp add: overlap_cost_def)
      then show False unfolding e by simp
    qed
    have "filter (\<lambda>p. ol + overlap_cost sep p \<le> co) (map ((#) w) (prefixes ws)) = map ((#) w) ?F"
      by (simp add: filter_map o_def overlap_cost_Cons add.assoc)
    then have "last ([] # filter (\<lambda>p. ol + overlap_cost sep p \<le> co) (prefixes (w # ws)))
               = last ([] # map ((#) w) ?F)"
      using ne by simp
    also have "\<dots> = w # last ([] # ?F)" using ne by (rule last_Nil_map_Cons)
    finally have l: "last ([] # filter (\<lambda>p. ol + overlap_cost sep p \<le> co) (prefixes (w # ws)))
                     = w # last ([] # ?F)" .
    have "fst (chroma_overlap sep co (w # ws) ow ol)
          = fst (chroma_overlap sep co ws (w # ow) (ol + ?wl))"
      using False by simp
    also have "\<dots> = rev (last ([] # ?F)) @ w # ow" by (rule Cons.IH)
    finally show ?thesis unfolding l by simp
  qed
qed

lemma carried_overlap:
  "carried sep co a = fst (chroma_overlap sep co (rev a) [] 0)"
proof -
  have "filter (\<lambda>s. overlap_cost sep s \<le> co) (map rev (prefixes (rev a)))
        = map rev (filter (\<lambda>p. overlap_cost sep p \<le> co) (prefixes (rev a)))"
    by (simp add: filter_map o_def overlap_cost_rev)
  then have "carried sep co a
             = last ([] # map rev (filter (\<lambda>p. overlap_cost sep p \<le> co) (prefixes (rev a))))"
    by (simp add: carried_def suffixes_conv_prefixes)
  also have "\<dots> = rev (last ([] # filter (\<lambda>p. overlap_cost sep p \<le> co) (prefixes (rev a))))"
    by (cases "filter (\<lambda>p. overlap_cost sep p \<le> co) (prefixes (rev a)) = []")
       (simp_all add: last_map)
  finally show ?thesis
    using overlap_longest_prefix [of sep co "rev a" "[]" 0] by simp
qed

lemma carried_suffix: "suffix (carried sep co a) a"
proof -
  from overlap_take [of "rev a" sep co "[]" 0] obtain k where
    "fst (chroma_overlap sep co (rev a) [] 0) = rev (take k (rev a)) @ []" by blast
  then have "carried sep co a = drop (length a - k) a"
    by (simp add: carried_overlap rev_take)
  then show ?thesis by (simp add: suffix_drop)
qed

lemma carried_bound:
  "int (length (py_join sep (carried sep co a))) \<le> max 0 (co - int (length sep))"
proof (cases "carried sep co a = []")
  case True
  then show ?thesis by simp
next
  case False
  from overlap_take [of "rev a" sep co "[]" 0] obtain k where k:
    "fst (chroma_overlap sep co (rev a) [] 0) = rev (take k (rev a)) @ []"
    "snd (chroma_overlap sep co (rev a) [] 0)
         = 0 + sum_list (map (\<lambda>w. int (length w) + int (length sep)) (take k (rev a)))"
    "0 < k \<longrightarrow> snd (chroma_overlap sep co (rev a) [] 0) \<le> co"
    by blast
  have c: "carried sep co a = rev (take k (rev a))" using k(1) by (simp add: carried_overlap)
  then have "0 < k" using False by (cases k) simp_all
  then have "sum_list (map (\<lambda>w. int (length w) + int (length sep)) (take k (rev a))) \<le> co"
    using k(2,3) by simp
  moreover have "sum_list (map (\<lambda>w. int (length w) + int (length sep)) (carried sep co a))
      = sum_list (map (\<lambda>w. int (length w) + int (length sep)) (take k (rev a)))"
    unfolding c by (simp add: rev_map [symmetric])
  ultimately have "int (length (py_join sep (carried sep co a))) + int (length sep) \<le> co"
    using length_join_sum [OF False, of sep] by simp
  then show ?thesis by simp
qed

lemma seeded_emit:
  assumes "chroma_pack sep cs co ws (carried sep co a @ [w]) cl = b # rest"
  shows "seeded sep co a b"
proof -
  have p: "prefix (carried sep co a @ [w]) b" using assms by (rule pack_head)
  then have "prefix (carried sep co a) b" by (rule append_prefixD)
  moreover have "length (carried sep co a @ [w]) \<le> length b"
    using p by (rule prefix_length_le)
  ultimately show ?thesis
    by (simp add: seeded_def carried_suffix carried_bound)
qed

lemma pack_all_seeded:
  "all_seeded sep co (chroma_pack sep cs co words cur cl)"
proof (induction words arbitrary: cur cl)
  case Nil
  then show ?case by simp
next
  case (Cons w ws)
  consider (first) "cur = []"
    | (keep) "cur \<noteq> []" "\<not> cl + (int (length w) + int (length sep)) > cs"
    | (emit) "cur \<noteq> []" "cl + (int (length w) + int (length sep)) > cs"
    by blast
  then show ?case
  proof cases
    case first
    show ?thesis unfolding first pack_first by (rule Cons.IH)
  next
    case keep
    show ?thesis unfolding pack_keep [OF keep] by (rule Cons.IH)
  next
    case emit
    define rest where
      "rest = chroma_pack sep cs co ws (carried sep co cur @ [w])
           (snd (chroma_overlap sep co (rev cur) [] 0) + (int (length w) + int (length sep)))"
    have step: "chroma_pack sep cs co (w # ws) cur cl = cur # rest"
      unfolding pack_emit [OF emit] rest_def carried_overlap ..
    have ih: "all_seeded sep co rest" unfolding rest_def by (rule Cons.IH)
    show ?thesis
    proof (cases rest)
      case Nil
      then show ?thesis unfolding step by simp
    next
      case (Cons b more)
      then have "seeded sep co cur b"
        using seeded_emit [of sep cs co ws cur w _ b more] unfolding rest_def by simp
      then show ?thesis unfolding step using ih Cons by simp
    qed
  qed
qed

lemma carried_nonempty:
  "(carried sep co a \<noteq> []) = (a \<noteq> [] \<and> int (length (last a)) + int (length sep) \<le> co)"
proof (cases a rule: rev_cases)
  case Nil
  then show ?thesis by (simp add: carried_overlap)
next
  case (snoc xs w)
  let ?wl = "int (length w) + int (length sep)"
  show ?thesis
  proof (cases "?wl \<le> co")
    case True
    from overlap_take [of "rev xs" sep co "[w]" ?wl] obtain k where
      "fst (chroma_overlap sep co (rev xs) [w] ?wl) = rev (take k (rev xs)) @ [w]" by blast
    then have "carried sep co a \<noteq> []" using True snoc by (simp add: carried_overlap)
    then show ?thesis using True snoc by simp
  next
    case False
    then have "carried sep co a = []" using snoc by (simp add: carried_overlap)
    then show ?thesis using False snoc by simp
  qed
qed

lemma pack_sublist:
  "p \<in> set (chroma_pack sep cs co ws cur cl) \<Longrightarrow> sublist p (cur @ ws) \<and> p \<noteq> []"
proof (induction ws arbitrary: cur cl)
  case Nil
  then show ?case by (auto split: if_splits)
next
  case (Cons w ws)
  consider (first) "cur = []"
    | (keep) "cur \<noteq> []" "\<not> cl + (int (length w) + int (length sep)) > cs"
    | (emit) "cur \<noteq> []" "cl + (int (length w) + int (length sep)) > cs"
    by blast
  then show ?case
  proof cases
    case first
    have "p \<in> set (chroma_pack sep cs co ws [w] (cl + int (length w)))"
      using Cons.prems unfolding first pack_first .
    then have "sublist p ([w] @ ws) \<and> p \<noteq> []" by (rule Cons.IH)
    then show ?thesis by (simp add: first)
  next
    case keep
    have "p \<in> set (chroma_pack sep cs co ws (cur @ [w]) (cl + (int (length w) + int (length sep))))"
      using Cons.prems unfolding pack_keep [OF keep] .
    then have "sublist p ((cur @ [w]) @ ws) \<and> p \<noteq> []" by (rule Cons.IH)
    then show ?thesis by simp
  next
    case emit
    define rest where
      "rest = chroma_pack sep cs co ws (carried sep co cur @ [w])
           (snd (chroma_overlap sep co (rev cur) [] 0) + (int (length w) + int (length sep)))"
    have step: "chroma_pack sep cs co (w # ws) cur cl = cur # rest"
      unfolding pack_emit [OF emit] rest_def carried_overlap ..
    have "p = cur \<or> p \<in> set rest" using Cons.prems unfolding step by simp
    then show ?thesis
    proof
      assume "p = cur"
      then show ?thesis using emit(1) by simp
    next
      assume "p \<in> set rest"
      then have ih: "sublist p ((carried sep co cur @ [w]) @ ws) \<and> p \<noteq> []"
        unfolding rest_def by (rule Cons.IH)
      then obtain a b where ab: "(carried sep co cur @ [w]) @ ws = a @ p @ b"
        unfolding sublist_def by blast
      obtain pre where pre: "cur = pre @ carried sep co cur"
        using carried_suffix [of sep co cur] unfolding suffix_def by blast
      have "cur @ w # ws = pre @ (carried sep co cur @ [w]) @ ws"
        using pre by (metis append.assoc append_Cons append_Nil)
      then have "cur @ w # ws = (pre @ a) @ p @ b" unfolding ab by simp
      then have "sublist p (cur @ w # ws)" unfolding sublist_def by blast
      then show ?thesis using ih by simp
    qed
  qed
qed

lemma chroma_split_texts:
  assumes "sep \<noteq> []"
  shows "map (\<lambda>c. py_split sep (ch_text c))
           (chroma_words_loop did fp sep cs co (py_split sep text) [] 0 0)
         = chroma_pack sep cs co (py_split sep text) [] 0"
proof -
  let ?packs = "chroma_pack sep cs co (py_split sep text) [] 0"
  have "map (\<lambda>c. py_split sep (ch_text c))
           (chroma_words_loop did fp sep cs co (py_split sep text) [] 0 0)
        = map (py_split sep) (map ch_text
           (chroma_words_loop did fp sep cs co (py_split sep text) [] 0 0))"
    by simp
  also have "\<dots> = map (py_split sep) (map (py_join sep) ?packs)"
    by (simp only: chroma_texts)
  also have "\<dots> = map (\<lambda>p. py_split sep (py_join sep p)) ?packs" by simp
  also have "\<dots> = map (\<lambda>p. p) ?packs"
  proof (rule map_cong [OF refl])
    fix p assume "p \<in> set ?packs"
    then have "sublist p ([] @ py_split sep text) \<and> p \<noteq> []" by (rule pack_sublist)
    then have "sublist p (py_split sep text)" and "p \<noteq> []" by simp_all
    then show "py_split sep (py_join sep p) = p" by (rule split_join_run [OF assms])
  qed
  finally show ?thesis by simp
qed

lemma chroma_words_loop_overlapping:
  "sep \<noteq> [] \<Longrightarrow>
   ch_overlapping sep co (chroma_words_loop did fp sep cs co (py_split sep text) [] 0 0)"
  by (simp add: ch_overlapping_def chroma_split_texts pack_all_seeded)

lemma chroma_overlap_groups:
  assumes "chroma_ingest_document document fs cs co sep = Inr chunks"
  shows "\<exists>groups. chunks = concat groups
           \<and> list_all2 (\<lambda>path g. ch_group path g \<and> ch_overlapping sep co g)
                 (map fst (chroma_resolved sep document fs)) groups"
proof -
  obtain did where loop: "chroma_pairs_loop did sep cs co (chroma_resolved sep document fs) = Inr chunks"
    using assms unfolding chroma_ingest_document_def chroma_resolved_def
    by (auto split: pyval.splits option.splits)
  define per where
    "per = (\<lambda>ft. chroma_words_loop did (fst ft) sep cs co (py_split sep (snd ft)) [] 0 0)"
  have chunks: "chunks = concat (map per (chroma_resolved sep document fs))"
    using chroma_pairs_loop_Inr [OF loop] by (simp add: per_def)
  have sep: "sep \<noteq> []" if "chroma_resolved sep document fs \<noteq> []"
    using loop that by (cases "chroma_resolved sep document fs") (auto split: if_splits)
  have "list_all2 (\<lambda>path g. ch_group path g \<and> ch_overlapping sep co g)
          (map fst (chroma_resolved sep document fs)) (map per (chroma_resolved sep document fs))"
  proof (rule list_all2_map_same)
    fix ft assume "ft \<in> set (chroma_resolved sep document fs)"
    then have "chroma_resolved sep document fs \<noteq> []" by (cases "chroma_resolved sep document fs") simp_all
    then have "sep \<noteq> []" by (rule sep)
    then show "ch_group (fst ft) (per ft) \<and> ch_overlapping sep co (per ft)"
      by (simp add: per_def chroma_words_loop_group chroma_words_loop_overlapping)
  qed
  then show ?thesis using chunks by auto
qed

text \<open>
  In mongo's \<^verbatim>\<open>chunk_text\<close> the packed chunks partition the words of the
  text, and the overlap pass, seen on words, puts the last \<open>chunk_overlap\<close>
  words of the previous packed chunk in front of each chunk.
\<close>

lemma mg_pack_words_join:
  "mg_pack sep cs ws (map (py_join sep) chunks) cur cl
   = map (py_join sep) (mg_pack_words cs ws chunks cur cl)"
proof (induction ws arbitrary: chunks cur cl)
  case Nil
  then show ?case by simp
next
  case (Cons w ws)
  show ?case
  proof (cases "cl + int (length w) + 1 \<le> cs")
    case True
    then show ?thesis using Cons.IH [of chunks "cur @ [w]"] by simp
  next
    case False
    show ?thesis
    proof (cases "cur = []")
      case True
      then show ?thesis using False Cons.IH [of chunks "[w]"] by simp
    next
      case ne: False
      then show ?thesis using False Cons.IH [of "chunks @ [cur]" "[w]"] by simp
    qed
  qed
qed

lemma mg_pack_words_concat:
  "concat (mg_pack_words cs ws chunks cur cl) = concat chunks @ cur @ ws"
  by (induction ws arbitrary: chunks cur cl) simp_all

lemma mg_pack_words_nonempty:
  "[] \<notin> set chunks \<Longrightarrow> [] \<notin> set (mg_pack_words cs ws chunks cur cl)"
  by (induction ws arbitrary: chunks cur cl) simp_all

lemma sublist_concat_member: "p \<in> set P \<Longrightarrow> sublist p (concat P)"
proof -
  assume "p \<in> set P"
  then obtain A B where "P = A @ p # B" by (meson split_list)
  then have "concat P = concat A @ p @ concat B" by simp
  then show ?thesis unfolding sublist_def by blast
qed

lemma adjacent_concat:
  "(a, b) \<in> set (zip P (tl P)) \<Longrightarrow> \<exists>X Y. concat P = X @ a @ b @ Y"
proof (induction P)
  case Nil
  then show ?case by simp
next
  case (Cons p ps)
  show ?case
  proof (cases ps)
    case Nil
    then show ?thesis using Cons.prems by simp
  next
    case (Cons q qs)
    then have "(a, b) = (p, q) \<or> (a, b) \<in> set (zip ps (tl ps))"
      using Cons.prems by auto
    then show ?thesis
    proof
      assume "(a, b) = (p, q)"
      then have "concat (p # ps) = [] @ a @ b @ concat qs" using Cons by simp
      then show ?thesis by blast
    next
      assume "(a, b) \<in> set (zip ps (tl ps))"
      then obtain X Y where "concat ps = X @ a @ b @ Y" using Cons.IH by blast
      then have "concat (p # ps) = (p @ X) @ a @ b @ Y" by simp
      then show ?thesis by blast
    qed
  qed
qed

lemma slice_last_words:
  "co > 0 \<Longrightarrow> py_slice a (- co) (int (length a)) = drop (length a - nat co) a"
proof -
  assume co: "co > 0"
  have "nat (max 0 (- co + int (length a))) = length a - nat co" using co by auto
  then show ?thesis using co by (simp add: py_slice_def slice_bound_def)
qed

lemma mg_overlapped_words_level:
  assumes "sep \<noteq> []" and "co > 0" and "sublist (concat P) (py_split sep s)" and "[] \<notin> set P"
  shows "mg_overlapped sep co (map (py_join sep) P) = map (py_join sep) (mg_overlap_words co P)"
proof (cases P)
  case Nil
  then show ?thesis by (simp add: mg_overlapped_def mg_overlap_words_def)
next
  case (Cons p ps)
  have run: "py_split sep (py_join sep x) = x" if "x \<in> set P" for x
  proof -
    have "sublist x (concat P)" using that by (rule sublist_concat_member)
    then have "sublist x (py_split sep s)" using assms(3) by (rule sublist_order.order.trans)
    moreover have "x \<noteq> []" using that assms(4) by auto
    ultimately show ?thesis by (rule split_join_run [OF assms(1)])
  qed
  have "mg_overlap_chunk sep co (py_join sep (fst ab)) (py_join sep (snd ab))
        = py_join sep (drop (length (fst ab) - nat co) (fst ab) @ snd ab)"
    if "ab \<in> set (zip P ps)" for ab
  proof -
    have "fst ab \<in> set P" and "snd ab \<in> set ps"
      using that by (metis prod.collapse set_zip_leftD, metis prod.collapse set_zip_rightD)
    then have "py_split sep (py_join sep (fst ab)) = fst ab"
      and "py_split sep (py_join sep (snd ab)) = snd ab"
      using run Cons by simp_all
    then show ?thesis by (simp add: mg_overlap_chunk_def slice_last_words [OF assms(2)])
  qed
  then have "map (\<lambda>ab. mg_overlap_chunk sep co (py_join sep (fst ab)) (py_join sep (snd ab))) (zip P ps)
             = map (\<lambda>ab. py_join sep (drop (length (fst ab) - nat co) (fst ab) @ snd ab)) (zip P ps)"
    by (intro map_cong refl) blast
  moreover have "zip (map (py_join sep) P) (map (py_join sep) ps)
                 = map (\<lambda>ab. (py_join sep (fst ab), py_join sep (snd ab))) (zip P ps)"
    by (simp add: zip_map_map case_prod_beta)
  ultimately show ?thesis
    using Cons by (simp add: mg_overlapped_def mg_overlap_words_def o_def)
qed

lemma mg_overlap_words_runs:
  assumes "x \<in> set (mg_overlap_words co P)" and "[] \<notin> set P"
  shows "sublist x (concat P) \<and> x \<noteq> []"
proof (cases P)
  case Nil
  then show ?thesis using assms by (simp add: mg_overlap_words_def)
next
  case (Cons p ps)
  then have "x = p \<or> (\<exists>ab \<in> set (zip P ps). x = drop (length (fst ab) - nat co) (fst ab) @ snd ab)"
    using assms(1) by (auto simp: mg_overlap_words_def)
  then show ?thesis
  proof
    assume "x = p"
    then have "x \<in> set P" using Cons by simp
    then show ?thesis using assms(2) sublist_concat_member by auto
  next
    assume "\<exists>ab \<in> set (zip P ps). x = drop (length (fst ab) - nat co) (fst ab) @ snd ab"
    then obtain a b where ab: "(a, b) \<in> set (zip P (tl P))"
      and x: "x = drop (length a - nat co) a @ b"
      using Cons by auto
    from adjacent_concat [OF ab] obtain X Y where "concat P = X @ a @ b @ Y" by blast
    then have "concat P = (X @ take (length a - nat co) a) @ x @ Y"
      unfolding x by (metis append.assoc append_take_drop_id)
    then have "sublist x (concat P)" unfolding sublist_def by blast
    moreover have "b \<in> set P" using ab by (metis list.set_sel(2) set_zip_rightD tl_Nil empty_iff empty_set)
    then have "x \<noteq> []" using x assms(2) by auto
    ultimately show ?thesis by simp
  qed
qed

lemma mg_seeded_step:
  assumes "co > 0" and "p \<noteq> []" and "q \<noteq> []"
  shows "mg_seeded co (c @ p) (drop (length p - nat co) p @ q)"
proof -
  let ?k = "min (nat co) (length p)"
  have "1 \<le> ?k" using assms(1,2) by (cases p) auto
  then have mem: "?k \<in> set [1..<Suc (min (nat co) (length (c @ p)))]"
    by (auto simp: min_def)
  have "length p - ?k = length p - nat co" by (simp add: min_def)
  then have "drop (length (c @ p) - ?k) (c @ p) = drop (length p - nat co) p" by simp
  then have pre: "prefix (drop (length (c @ p) - ?k) (c @ p)) (drop (length p - nat co) p @ q)"
    by simp
  have len: "?k < length (drop (length p - nat co) p @ q)" using assms(3) by (cases q) auto
  show ?thesis
    unfolding mg_seeded_def list_ex_iff
    by (rule bexI [of _ ?k]) (use pre len mem in blast)+
qed

lemma mg_all_seeded_chain:
  "co > 0 \<Longrightarrow> [] \<notin> set (p # ps) \<Longrightarrow>
   mg_all_seeded co ((c @ p) # map (\<lambda>ab. drop (length (fst ab) - nat co) (fst ab) @ snd ab)
                                 (zip (p # ps) ps))"
proof (induction ps arbitrary: c p)
  case Nil
  then show ?case by simp
next
  case (Cons q qs)
  have "mg_seeded co (c @ p) (drop (length p - nat co) p @ q)"
    using Cons.prems by (intro mg_seeded_step) auto
  moreover have "mg_all_seeded co ((drop (length p - nat co) p @ q)
                   # map (\<lambda>ab. drop (length (fst ab) - nat co) (fst ab) @ snd ab) (zip (q # qs) qs))"
    using Cons.prems by (intro Cons.IH) auto
  ultimately show ?case by simp
qed

lemma mg_overlap_words_seeded:
  "co > 0 \<Longrightarrow> [] \<notin> set P \<Longrightarrow> mg_all_seeded co (mg_overlap_words co P)"
  using mg_all_seeded_chain [of co "hd P" "tl P" "[]"]
  by (cases P) (simp_all add: mg_overlap_words_def)

lemma mongo_chunk_words:
  assumes "sep \<noteq> []" and "chunk_text sep cs co text = Inr out"
  shows "if co > 0 then mg_all_seeded co (map (py_split sep) out)
         else concat (map (py_split sep) out) = py_split sep text"
proof -
  define P where "P = mg_pack_words cs (py_split sep text) [] [] 0"
  have packed: "mg_pack sep cs (py_split sep text) [] [] 0 = map (py_join sep) P"
    using mg_pack_words_join [of sep cs "py_split sep text" "[]" "[]" 0] by (simp add: P_def)
  have cat: "concat P = py_split sep text" by (simp add: P_def mg_pack_words_concat)
  have ne: "[] \<notin> set P" unfolding P_def by (rule mg_pack_words_nonempty) simp
  have sub: "sublist (concat P) (py_split sep text)" by (simp add: cat)
  have idP: "map (py_split sep) (map (py_join sep) P) = P"
  proof -
    have "py_split sep (py_join sep x) = x" if "x \<in> set P" for x
    proof -
      have "sublist x (py_split sep text)"
        using sublist_concat_member [OF that] by (simp add: cat)
      moreover have "x \<noteq> []" using that ne by auto
      ultimately show ?thesis by (rule split_join_run [OF assms(1)])
    qed
    then have "map (\<lambda>x. py_split sep (py_join sep x)) P = map (\<lambda>x. x) P"
      by (intro map_cong refl) blast
    then show ?thesis by (simp add: o_def)
  qed
  show ?thesis
  proof (cases "co > 0 \<and> length P > 1")
    case True
    then have "out = mg_overlapped sep co (map (py_join sep) P)"
      using assms(2) by (simp add: chunk_text_Inr [OF assms(1)] packed)
    then have out: "out = map (py_join sep) (mg_overlap_words co P)"
      using mg_overlapped_words_level [OF assms(1) _ sub ne] True by simp
    have "py_split sep (py_join sep x) = x" if "x \<in> set (mg_overlap_words co P)" for x
    proof -
      have "sublist x (concat P) \<and> x \<noteq> []" using that ne by (rule mg_overlap_words_runs)
      then have "sublist x (py_split sep text)" and "x \<noteq> []" by (simp_all add: cat)
      then show ?thesis by (rule split_join_run [OF assms(1)])
    qed
    then have "map (\<lambda>x. py_split sep (py_join sep x)) (mg_overlap_words co P)
               = map (\<lambda>x. x) (mg_overlap_words co P)"
      by (intro map_cong refl) blast
    then have "map (py_split sep) out = mg_overlap_words co P" by (simp add: out o_def)
    then show ?thesis using True mg_overlap_words_seeded [OF _ ne] by simp
  next
    case False
    then have out: "out = map (py_join sep) P"
      using assms(2) by (auto simp: chunk_text_Inr [OF assms(1)] packed)
    then have sp: "map (py_split sep) out = P" using idP by simp
    show ?thesis
    proof (cases "co > 0")
      case True
      then have "length P \<le> 1" using False by simp
      then have "mg_all_seeded co P" by (cases P) auto
      then show ?thesis using True sp by simp
    next
      case False
      then show ?thesis using sp cat by simp
    qed
  qed
qed

lemma mg_fields_loop_sep:
  "mg_fields_loop em document d cs co sep fs acc = Inr ops \<Longrightarrow> f \<in> set fs \<Longrightarrow>
   extract_field_content document (py_split ''.'' f) \<noteq> [] \<Longrightarrow> sep \<noteq> []"
proof (induction fs arbitrary: acc)
  case Nil
  then show ?case by simp
next
  case (Cons g fs)
  show ?case
  proof (cases "extract_field_content document (py_split ''.'' g) = []")
    case True
    then have "f \<in> set fs" using Cons.prems(2,3) by auto
    moreover have "mg_fields_loop em document d cs co sep fs acc = Inr ops"
      using Cons.prems(1) True by simp
    ultimately show ?thesis using Cons.IH Cons.prems(3) by blast
  next
    case False
    then show ?thesis using Cons.prems(1) by (auto simp: chunk_text_def split: if_splits)
  qed
qed

lemma mg_ops_of_overlapping:
  assumes "extract_field_content document (py_split ''.'' f) \<noteq> [] \<Longrightarrow> sep \<noteq> []"
  shows "mg_overlapping sep co (extract_field_content document (py_split ''.'' f))
           (mg_ops_of em document d cs co sep f)"
proof (cases "extract_field_content document (py_split ''.'' f) = []")
  case True
  then show ?thesis by (simp add: mg_overlapping_def mg_ops_of_def)
next
  case False
  let ?content = "extract_field_content document (py_split ''.'' f)"
  have sep: "sep \<noteq> []" using assms False by simp
  then obtain out where out: "chunk_text sep cs co ?content = Inr out"
    using chunk_text_Inr by blast
  have g: "mg_ops_of em document d cs co sep f = mg_field_ops em d f cs co out"
    using False out by (simp add: mg_ops_of_def)
  have "map (\<lambda>op. py_split sep (mg_text op)) (mg_field_ops em d f cs co out)
        = map (py_split sep) (map mg_text (mg_field_ops em d f cs co out))"
    by simp
  also have "\<dots> = map (py_split sep) out" by (simp only: mg_field_ops_sel)
  finally have texts: "map (\<lambda>op. py_split sep (mg_text op)) (mg_field_ops em d f cs co out)
                       = map (py_split sep) out" .
  show ?thesis
    using mongo_chunk_words [OF sep out] False
    unfolding mg_overlapping_def g texts by simp
qed

lemma list_all2_same:
  "(\<And>x. x \<in> set xs \<Longrightarrow> P x (g x)) \<Longrightarrow> list_all2 P xs (map g xs)"
  by (induction xs) simp_all

lemma mongo_overlap_groups:
  assumes "mongo_ingest_document (PDict kvs) fs cs co sep em = Inr ops"
  shows "\<exists>groups. ops = concat groups
           \<and> list_all2 (\<lambda>f g. mg_group f g
                          \<and> mg_overlapping sep co
                              (extract_field_content (PDict kvs) (py_split ''.'' f)) g)
                 fs groups"
proof -
  obtain d where loop: "mg_fields_loop em (PDict kvs) d cs co sep fs [] = Inr ops"
    using assms by (simp add: mongo_ingest_document_def)
  have ops: "ops = concat (map (mg_ops_of em (PDict kvs) d cs co sep) fs)"
    using mg_fields_loop_Inr [OF loop] by simp
  have "list_all2 (\<lambda>f g. mg_group f g
                          \<and> mg_overlapping sep co
                              (extract_field_content (PDict kvs) (py_split ''.'' f)) g)
          fs (map (mg_ops_of em (PDict kvs) d cs co sep) fs)"
  proof (rule list_all2_same)
    fix f assume f: "f \<in> set fs"
    have "mg_overlapping sep co (extract_field_content (PDict kvs) (py_split ''.'' f))
            (mg_ops_of em (PDict kvs) d cs co sep f)"
      by (rule mg_ops_of_overlapping) (rule mg_fields_loop_sep [OF loop f])
    then show "mg_group f (mg_ops_of em (PDict kvs) d cs co sep f)
               \<and> mg_overlapping sep co (extract_field_content (PDict kvs) (py_split ''.'' f))
                   (mg_ops_of em (PDict kvs) d cs co sep f)"
      using mg_ops_of_group by blast
  qed
  then show ?thesis using ops by blast
qed

text \<open>
  C8 amended. In chroma, in the chunk sequence of every resolved field, every
  chunk after the first begins with the words carried from the chunk before
  it and goes on with at least one new word. The carried words are the
  longest run of trailing words of the previous chunk whose lengths, each
  counted with one separator, total at most \<open>chunkOverlap\<close>: their text is a
  suffix of the previous chunk of at most \<open>max(0, chunkOverlap - len(separator))\<close>
  characters, and there is at least one carried word exactly when the last
  word of the previous chunk and one separator fit in \<open>chunkOverlap\<close>. In
  mongo the overlap is counted in words: in the chunk sequence of every entry
  of \<^verbatim>\<open>searchable_fields\<close>, with \<open>chunkOverlap > 0\<close> every chunk after the
  first begins with the last \<open>k\<close> words of the chunk before it, for some
  \<open>k\<close> from 1 to \<open>chunkOverlap\<close>, and goes on with at least one new word;
  with \<open>chunkOverlap \<le> 0\<close> the chunks partition the words of the field's
  content.
\<close>

theorem overlap_is_carried_words:
  assumes "chroma_ingest_document document fs cs co sep = Inr chunks"
    and "mongo_ingest_document (PDict kvs) fs' cs' co' sep' em = Inr ops"
  shows "(\<exists>groups. chunks = concat groups
            \<and> list_all2 (\<lambda>path g. ch_group path g \<and> ch_overlapping sep co g)
                  (map fst (chroma_resolved sep document fs)) groups)
       \<and> suffix (carried sep co a) a
       \<and> int (length (py_join sep (carried sep co a))) \<le> max 0 (co - int (length sep))
       \<and> (carried sep co a \<noteq> []) = (a \<noteq> [] \<and> int (length (last a)) + int (length sep) \<le> co)
       \<and> (\<exists>groups. ops = concat groups
            \<and> list_all2 (\<lambda>f g. mg_group f g
                           \<and> mg_overlapping sep' co'
                               (extract_field_content (PDict kvs) (py_split ''.'' f)) g)
                  fs' groups)"
  using chroma_overlap_groups [OF assms(1)] carried_suffix [of sep co a]
    carried_bound [of sep co a] carried_nonempty [of sep co a] mongo_overlap_groups [OF assms(2)]
  by blast

lemma chroma_scenario_overlap:
  "chroma_ingest_document (PDict [(''id'', PStr ''d1''), (''title'', PStr ''a b c d e'')])
     [''title''] 3 2 '' '' =
   Inr [create_chunk (PStr ''d1'') ''a b'' ''title'' 0, create_chunk (PStr ''d1'') ''b c'' ''title'' 1,
        create_chunk (PStr ''d1'') ''c d'' ''title'' 2, create_chunk (PStr ''d1'') ''d e'' ''title'' 3]"
  by (simp add: chroma_ingest_document_def py_split_def eval_nat_numeral)

text \<open>
  An instance: the scenario document with chunk size 3, in chroma with
  overlap 2 (one word and its separator are carried each time) and in mongo
  with overlap 1.
\<close>

theorem overlap_is_carried_words_witness:
  "chroma_ingest_document (PDict [(''id'', PStr ''d1''), (''title'', PStr ''a b c d e'')])
     [''title''] 3 2 '' ''
   = Inr [create_chunk (PStr ''d1'') ''a b'' ''title'' 0, create_chunk (PStr ''d1'') ''b c'' ''title'' 1,
          create_chunk (PStr ''d1'') ''c d'' ''title'' 2, create_chunk (PStr ''d1'') ''d e'' ''title'' 3]
   \<and> mongo_ingest_document (PDict [(''id'', PStr ''d1''), (''title'', PStr ''a b c d e'')])
       [''title''] 3 1 '' '' (None :: (string \<Rightarrow> nat) option)
     = Inr (mg_field_ops None (PStr ''d1'') ''title'' 3 1 [''a'', ''a b'', ''b c'', ''c d'', ''d e''])
   \<and> (\<exists>groups.
         [create_chunk (PStr ''d1'') ''a b'' ''title'' 0, create_chunk (PStr ''d1'') ''b c'' ''title'' 1,
          create_chunk (PStr ''d1'') ''c d'' ''title'' 2, create_chunk (PStr ''d1'') ''d e'' ''title'' 3]
         = concat groups
         \<and> list_all2 (\<lambda>path g. ch_group path g \<and> ch_overlapping '' '' 2 g)
               (map fst (chroma_resolved '' ''
                  (PDict [(''id'', PStr ''d1''), (''title'', PStr ''a b c d e'')]) [''title'']))
               groups)
   \<and> carried '' '' 2 [''a'', ''b''] \<noteq> []
   \<and> (\<exists>groups.
         mg_field_ops (None :: (string \<Rightarrow> nat) option) (PStr ''d1'') ''title'' 3 1
           [''a'', ''a b'', ''b c'', ''c d'', ''d e'']
         = concat groups
         \<and> list_all2 (\<lambda>f g. mg_group f g
                        \<and> mg_overlapping '' '' 1
                            (extract_field_content
                               (PDict [(''id'', PStr ''d1''), (''title'', PStr ''a b c d e'')])
                               (py_split ''.'' f)) g)
               [''title''] groups)"
proof -
  note t = overlap_is_carried_words
    [OF chroma_scenario_overlap mongo_scenario [where em = "None :: (string \<Rightarrow> nat) option"],
     where a = "[''a'', ''b'']"]
  have "carried '' '' 2 [''a'', ''b''] \<noteq> []"
    using t by simp
  then show ?thesis
    using t chroma_scenario_overlap mongo_scenario [where em = "None :: (string \<Rightarrow> nat) option"]
    by blast
qed

lemma mongo_hello:
  "chunk_text '' '' 6 1 ''hello world'' = Inr [''hello'', ''hello world'']"
  by code_simp

lemma shared_hello: "shared_prefix_length ''hello'' ''hello world'' = 5"
  by code_simp

lemma shared_ab_c: "shared_prefix_length ''a b'' ''c'' = 0"
  by code_simp

text \<open>
  C8 as stated fails on both sides. In mongo (overlap counted in words) the
  second chunk of \<^verbatim>\<open>"hello world"\<close> with chunk size 6 and overlap 1 shares
  five characters with the first. In chroma the second chunk of the scenario,
  \<^verbatim>\<open>"c"\<close>, shares nothing with \<^verbatim>\<open>"a b"\<close> although the overlap is 1 and the
  first chunk has two words.
\<close>

theorem overlap_bound_counterexample:
  "chunk_text '' '' 6 1 ''hello world'' = Inr [''hello'', ''hello world'']
   \<and> \<not> int (shared_prefix_length ''hello'' ''hello world'') \<le> 1
   \<and> (\<exists>cs. chroma_ingest_document (PDict [(''id'', PStr ''d1''), (''title'', PStr ''a b c d e'')])
              [''title''] 3 1 '' '' = Inr cs
          \<and> map ch_text cs = [''a b'', ''c'', ''d'', ''e''])
   \<and> \<not> 0 < shared_prefix_length ''a b'' ''c''"
  by (simp add: mongo_hello shared_hello shared_ab_c chroma_scenario create_chunk_sel)

subsection \<open>Non-positive chunk size (C9)\<close>

lemma mg_pack_nonpositive:
  "chunk_size \<le> 0 \<Longrightarrow> 0 \<le> cl \<Longrightarrow>
   mg_pack sep chunk_size words chunks cur cl =
   chunks @ (if cur \<noteq> [] then [py_join sep cur] else []) @ words"
proof (induction words arbitrary: chunks cur cl)
  case Nil
  then show ?case by simp
next
  case (Cons w ws)
  have no_fit: "\<not> cl + int (length w) + 1 \<le> chunk_size"
    using Cons.prems by simp
  have "mg_pack sep chunk_size (w # ws) chunks cur cl =
        mg_pack sep chunk_size ws (if cur \<noteq> [] then chunks @ [py_join sep cur] else chunks)
          [w] (int (length w) + 1)"
    using no_fit by simp
  also have "\<dots> = (if cur \<noteq> [] then chunks @ [py_join sep cur] else chunks)
                   @ (if [w] \<noteq> [] then [py_join sep [w]] else []) @ ws"
    by (rule Cons.IH) (use Cons.prems in simp_all)
  finally show ?case by simp
qed

lemma length_mg_overlapped: "length (mg_overlapped sep co chunks) = length chunks"
  by (cases chunks) (simp_all add: mg_overlapped_def)

text \<open>
  With a non-positive chunk size no word fits, so the packing loop of mongo's
  \<^verbatim>\<open>chunk_text\<close> makes every word a chunk, and the overlap pass then puts
  the previous word in front of each.
\<close>

lemma mg_overlap_chunk_words:
  assumes "py_split sep p = [p]" and "py_split sep c = [c]" and "co > 0"
  shows "mg_overlap_chunk sep co p c = p @ sep @ c"
  using assms by (simp add: mg_overlap_chunk_def py_slice_def slice_bound_def)

lemma mg_overlapped_words:
  assumes "sep \<noteq> []" and "co > 0" and "set words \<subseteq> set (py_split sep s)"
  shows "mg_overlapped sep co words =
         (case words of [] \<Rightarrow> [] | w # ws \<Rightarrow> w # map (\<lambda>pw. fst pw @ sep @ snd pw) (zip words ws))"
proof (cases words)
  case Nil
  then show ?thesis by (simp add: mg_overlapped_def)
next
  case (Cons w ws)
  have "mg_overlap_chunk sep co (fst pw) (snd pw) = fst pw @ sep @ snd pw"
    if "pw \<in> set (zip words ws)" for pw
  proof -
    have "fst pw \<in> set words" and "snd pw \<in> set ws"
      using that by (metis prod.collapse set_zip_leftD, metis prod.collapse set_zip_rightD)
    then have "fst pw \<in> set (py_split sep s)" and "snd pw \<in> set (py_split sep s)"
      using assms(3) Cons by auto
    then show ?thesis
      using split_word [OF assms(1)] mg_overlap_chunk_words [OF _ _ assms(2)] by blast
  qed
  then show ?thesis by (simp add: mg_overlapped_def Cons)
qed

lemma chunk_text_word_chunks:
  assumes "separator \<noteq> []" and "chunk_size \<le> 0"
  shows "chunk_text separator chunk_size chunk_overlap text
         = Inr (word_chunks separator chunk_overlap (py_split separator text))"
proof -
  let ?ws = "py_split separator text"
  have pack: "mg_pack separator chunk_size ?ws [] [] 0 = ?ws"
    using mg_pack_nonpositive [OF assms(2), of 0 separator ?ws "[]" "[]"] by simp
  show ?thesis
  proof (cases "chunk_overlap > 0 \<and> length ?ws > 1")
    case True
    then obtain w rest where ws: "?ws = w # rest" by (cases ?ws) auto
    have "mg_overlapped separator chunk_overlap ?ws
          = (case ?ws of [] \<Rightarrow> [] | w # ws \<Rightarrow> w # map (\<lambda>pw. fst pw @ separator @ snd pw) (zip ?ws ws))"
      using True by (intro mg_overlapped_words [OF assms(1), of _ _ "text"]) simp_all
    then have "mg_overlapped separator chunk_overlap ?ws = word_chunks separator chunk_overlap ?ws"
      using True ws by (simp add: word_chunks_def)
    then show ?thesis using True by (simp add: chunk_text_Inr [OF assms(1)] pack)
  next
    case False
    then show ?thesis by (auto simp: chunk_text_Inr [OF assms(1)] pack word_chunks_def)
  qed
qed

lemma mg_fields_loop_nonpositive:
  assumes "separator \<noteq> []" and "chunk_size \<le> 0"
  shows "mg_fields_loop em document d chunk_size chunk_overlap separator fs acc
         = Inr (acc @ concat (map (\<lambda>f.
               if extract_field_content document (py_split ''.'' f) = [] then []
               else mg_field_ops em d f chunk_size chunk_overlap
                      (word_chunks separator chunk_overlap
                         (py_split separator (extract_field_content document (py_split ''.'' f)))))
              fs))"
proof (induction fs arbitrary: acc)
  case Nil
  then show ?case by simp
next
  case (Cons f fs)
  show ?case
  proof (cases "extract_field_content document (py_split ''.'' f) = []")
    case True
    then show ?thesis by (simp add: Cons.IH)
  next
    case False
    then show ?thesis by (simp add: chunk_text_word_chunks [OF assms] Cons.IH)
  qed
qed

lemma lc_values_loop_blank:
  "list_all (\<lambda>v. v = []) vs \<Longrightarrow>
   lc_values_loop split_text d f cs co sep vs = Inr []"
  by (induction vs) simp_all

lemma lc_values_loop_rejects:
  assumes "\<And>v. split_text cs co sep v = Inl e"
  shows "\<not> list_all (\<lambda>v. v = []) vs \<Longrightarrow> lc_values_loop split_text d f cs co sep vs = Inl e"
  by (induction vs) (simp_all add: assms)

lemma lc_fields_loop_rejects:
  assumes "\<And>v. split_text cs co sep v = Inl e"
  shows "lc_fields_loop split_text d document cs co sep fs
         = (if list_all (\<lambda>v. v = []) (lc_values document fs) then Inr [] else Inl e)"
proof (induction fs)
  case Nil
  then show ?case by (simp add: lc_values_def)
next
  case (Cons f fs)
  let ?vs = "lc_extract_field_value document (py_split ''.'' f) []"
  have v: "lc_values document (f # fs) = ?vs @ lc_values document fs"
    by (simp add: lc_values_def)
  show ?case
  proof (cases "list_all (\<lambda>v. v = []) ?vs")
    case True
    then show ?thesis using Cons.IH by (simp add: v lc_values_loop_blank)
  next
    case False
    have "lc_values_loop split_text d f cs co sep ?vs = Inl e"
      using assms False by (rule lc_values_loop_rejects)
    then show ?thesis using False by (simp add: v)
  qed
qed

text \<open>
  C9 amended: a non-positive \<^verbatim>\<open>chunk_size\<close> is not rejected eagerly by the
  mongo or the langchain script. In mongo, for every document, field list,
  overlap and non-empty separator, \<^verbatim>\<open>ingest_document\<close> with
  \<^verbatim>\<open>chunk_size <= 0\<close> raises nothing and stores, for every field with
  content, one record per separator-delimited word of the content: the words
  themselves when \<^verbatim>\<open>chunk_overlap <= 0\<close> or there is one word, and otherwise
  the first word followed by each later word preceded by the word before it
  and a separator. In langchain \<^verbatim>\<open>chunk_size\<close> only reaches the library's
  splitter, built for each non-empty resolved value after extraction: when
  the splitter rejects the parameters with an exception, the call raises it if
  some resolved value is not empty, and returns normally with no record
  otherwise.
\<close>

theorem nonpositive_chunk_size_accepted:
  assumes "separator \<noteq> []" and "chunk_size \<le> 0"
  shows "mongo_ingest_document (PDict kvs) fs chunk_size chunk_overlap separator em
         = Inr (concat (map (\<lambda>f.
               if extract_field_content (PDict kvs) (py_split ''.'' f) = [] then []
               else mg_field_ops em (dict_get kvs ''id'' (PStr (py_str (PDict kvs)))) f
                      chunk_size chunk_overlap
                      (word_chunks separator chunk_overlap
                         (py_split separator
                            (extract_field_content (PDict kvs) (py_split ''.'' f)))))
              fs))
       \<and> ((\<forall>v. split_text chunk_size chunk_overlap separator v = Inl e)
          \<longrightarrow> langchain_ingest_document split_text (PDict kvs) fs chunk_size chunk_overlap separator
              = (if list_all (\<lambda>v. v = []) (lc_values (PDict kvs) fs) then Inr [] else Inl e))"
proof (intro conjI impI)
  show "mongo_ingest_document (PDict kvs) fs chunk_size chunk_overlap separator em
         = Inr (concat (map (\<lambda>f.
               if extract_field_content (PDict kvs) (py_split ''.'' f) = [] then []
               else mg_field_ops em (dict_get kvs ''id'' (PStr (py_str (PDict kvs)))) f
                      chunk_size chunk_overlap
                      (word_chunks separator chunk_overlap
                         (py_split separator
                            (extract_field_content (PDict kvs) (py_split ''.'' f)))))
              fs))"
    using mg_fields_loop_nonpositive
      [OF assms, where acc = "[]" and d = "dict_get kvs ''id'' (PStr (py_str (PDict kvs)))"]
    by (simp add: mongo_ingest_document_def del: py_str.simps)
next
  assume "\<forall>v. split_text chunk_size chunk_overlap separator v = Inl e"
  then show "langchain_ingest_document split_text (PDict kvs) fs chunk_size chunk_overlap separator
              = (if list_all (\<lambda>v. v = []) (lc_values (PDict kvs) fs) then Inr [] else Inl e)"
    using lc_fields_loop_rejects [of split_text chunk_size chunk_overlap separator e]
    by (simp add: langchain_ingest_document_def)
qed

lemma mongo_zero_size:
  "mongo_ingest_document (PDict [(''id'', PStr ''d1''), (''title'', PStr ''a b c d e'')])
     [''title''] 0 0 '' '' em =
   Inr (mg_field_ops em (PStr ''d1'') ''title'' 0 0 [''a'', ''b'', ''c'', ''d'', ''e''])"
  by (simp add: mongo_ingest_document_def dict_get_def chunk_text_def py_split_def)

text \<open>
  C9 as stated (a call with \<^verbatim>\<open>chunk_size <= 0\<close> is rejected before any
  record is produced) fails in mongo: with \<^verbatim>\<open>chunk_size = 0\<close> the scenario
  document yields five records.
\<close>

theorem nonpositive_chunk_size_counterexample:
  "\<exists>ops. mongo_ingest_document (PDict [(''id'', PStr ''d1''), (''title'', PStr ''a b c d e'')])
            [''title''] 0 0 '' '' None = Inr ops
        \<and> map mg_text ops = [''a'', ''b'', ''c'', ''d'', ''e'']"
  by (simp add: mongo_zero_size mg_field_ops_sel)

lemma abc_content:
  "extract_field_content (PDict [(''id'', PStr ''d1''), (''title'', PStr ''a b c'')])
     (py_split ''.'' ''title'') = ''a b c''"
  "extract_field_content (PDict [(''id'', PStr ''d1''), (''title'', PStr ''a b c'')])
     (py_split ''.'' ''missing'') = []"
  by code_simp+

lemma abc_words: "py_split '' '' ''a b c'' = [''a'', ''b'', ''c'']"
  by code_simp

lemma abc_values:
  "lc_values (PDict [(''id'', PStr ''d1''), (''title'', PStr ''a b c'')]) [''title''] = [''a b c'']"
  "lc_values (PDict [(''id'', PStr ''d1''), (''title'', PStr ''a b c'')]) [''missing''] = []"
  by code_simp+

text \<open>
  Instances, for the document \<^verbatim>\<open>{"id": "d1", "title": "a b c"}\<close> with chunk
  size 0 and overlap 1: mongo stores the three chunks \<^verbatim>\<open>a\<close>, \<^verbatim>\<open>a b\<close>,
  \<^verbatim>\<open>b c\<close> for the field \<^verbatim>\<open>title\<close>; langchain, with a splitter that rejects
  the size, raises for the field \<^verbatim>\<open>title\<close> and returns normally for the
  field \<^verbatim>\<open>missing\<close>.
\<close>

theorem nonpositive_chunk_size_accepted_witness:
  "'' '' \<noteq> [] \<and> (0::int) \<le> 0
   \<and> (\<forall>v. checked_splitter 0 1 '' '' v = Inl ValueError)
   \<and> mongo_ingest_document (PDict [(''id'', PStr ''d1''), (''title'', PStr ''a b c'')])
         [''title''] 0 1 '' '' (None :: (string \<Rightarrow> nat) option)
       = Inr (mg_field_ops (None :: (string \<Rightarrow> nat) option) (PStr ''d1'') ''title'' 0 1
                [''a'', ''a b'', ''b c''])
   \<and> langchain_ingest_document checked_splitter
         (PDict [(''id'', PStr ''d1''), (''title'', PStr ''a b c'')]) [''title''] 0 1 '' ''
       = Inl ValueError
   \<and> langchain_ingest_document checked_splitter
         (PDict [(''id'', PStr ''d1''), (''title'', PStr ''a b c'')]) [''missing''] 0 1 '' ''
       = Inr []"
proof -
  have h1: "'' '' \<noteq> []" by simp
  have h2: "(0::int) \<le> 0" by simp
  have h3: "\<forall>v. checked_splitter 0 1 '' '' v = Inl ValueError"
    by (simp add: checked_splitter_def)
  note a = nonpositive_chunk_size_accepted
    [OF h1 h2, where kvs = "[(''id'', PStr ''d1''), (''title'', PStr ''a b c'')]"
       and fs = "[''title'']" and chunk_overlap = 1 and em = "None :: (string \<Rightarrow> nat) option"
       and split_text = checked_splitter and e = ValueError]
  note b = nonpositive_chunk_size_accepted
    [OF h1 h2, where kvs = "[(''id'', PStr ''d1''), (''title'', PStr ''a b c'')]"
       and fs = "[''missing'']" and chunk_overlap = 1 and em = "None :: (string \<Rightarrow> nat) option"
       and split_text = checked_splitter and e = ValueError]
  have m: "mongo_ingest_document (PDict [(''id'', PStr ''d1''), (''title'', PStr ''a b c'')])
         [''title''] 0 1 '' '' (None :: (string \<Rightarrow> nat) option)
       = Inr (mg_field_ops (None :: (string \<Rightarrow> nat) option) (PStr ''d1'') ''title'' 0 1
                [''a'', ''a b'', ''b c''])"
    using a [THEN conjunct1]
    by (simp add: abc_content abc_words word_chunks_def dict_get_def)
  have l1: "langchain_ingest_document checked_splitter
         (PDict [(''id'', PStr ''d1''), (''title'', PStr ''a b c'')]) [''title''] 0 1 '' ''
       = Inl ValueError"
    using a [THEN conjunct2] h3 by (simp add: abc_values)
  have l2: "langchain_ingest_document checked_splitter
         (PDict [(''id'', PStr ''d1''), (''title'', PStr ''a b c'')]) [''missing''] 0 1 '' ''
       = Inr []"
    using b [THEN conjunct2] h3 by (simp add: abc_values)
  show ?thesis using h1 h2 h3 m l1 l2 by blast
qed

subsection \<open>pinecone without an embedding model (C10)\<close>






















subsection \<open>The chunkers that do terminate\<close>

text \<open>
  The mongo chunker is a pair of \<^verbatim>\<open>for\<close> loops: it returns for every input,
  and with a non-empty separator it returns at least one chunk, whatever the
  chunk size and overlap. This is the behaviour C2 asks of every chunker.
\<close>

lemma mg_pack_not_Nil:
  "words \<noteq> [] \<or> cur \<noteq> [] \<Longrightarrow> mg_pack sep cs words chunks cur cl \<noteq> []"
proof (induction words arbitrary: chunks cur cl)
  case Nil
  then show ?case by simp
next
  case (Cons w ws)
  show ?case
  proof (cases "cl + int (length w) + 1 \<le> cs")
    case True
    have "mg_pack sep cs ws chunks (cur @ [w]) (cl + int (length w) + 1) \<noteq> []"
      by (rule Cons.IH) simp
    then show ?thesis using True by simp
  next
    case False
    have "mg_pack sep cs ws (if cur \<noteq> [] then chunks @ [py_join sep cur] else chunks) [w]
            (int (length w) + 1) \<noteq> []"
      by (rule Cons.IH) simp
    then show ?thesis using False by simp
  qed
qed

lemma mongo_chunk_text_returns:
  assumes "separator \<noteq> []"
  shows "\<exists>chunks. chunk_text separator cs co text = Inr chunks \<and> chunks \<noteq> []"
proof -
  let ?packed = "mg_pack separator cs (py_split separator text) [] [] 0"
  have "py_split separator text \<noteq> []"
    by (simp add: py_split_def split_from_not_Nil)
  then have ne: "?packed \<noteq> []" by (intro mg_pack_not_Nil) simp
  then have "mg_overlapped separator co ?packed \<noteq> []"
    using length_mg_overlapped [of separator co ?packed] by (cases "mg_overlapped separator co ?packed") auto
  then show ?thesis using ne by (simp add: chunk_text_Inr [OF assms])
qed

end
